(* ===== verification/Prelude.thy ===== *)
theory Prelude
  imports Complex_Main "HOL-Library.Word" "HOL-Library.Code_Target_Numeral"
begin

text \<open>
  Vocabulary shared by every component: the machine types the C++ sources use, the
  collections of simplification rules the component proofs rest on, and generic lemmas on
  lists and powers of two.
\<close>

type_synonym u64 = "64 word"  \<comment> \<open>\<open>uint64_t\<close>\<close>
type_synonym i64 = "64 word"  \<comment> \<open>\<open>int64_t\<close>, read with \<^const>\<open>sint\<close>\<close>
type_synonym i32 = "32 word"  \<comment> \<open>\<open>int\<close>, read with \<^const>\<open>sint\<close>\<close>
type_synonym u32 = "32 word"  \<comment> \<open>\<open>unsigned int\<close>\<close>

abbreviation newline :: char where
  "newline \<equiv> CHR 0x0A"

abbreviation carriage_return :: char where
  "carriage_return \<equiv> CHR 0x0D"

named_theorems json_simps \<open>what the JSON library guarantees about values the program builds\<close>
named_theorems handler_defs \<open>definitions of the server's handlers\<close>
named_theorems frame_simps \<open>fields an operation leaves alone\<close>

text \<open>\<open>EXIT_SUCCESS\<close> and \<open>EXIT_FAILURE\<close>.\<close>

definition exit_success :: int where "exit_success = 0"
definition exit_failure :: int where "exit_failure = 1"

subsection \<open>Powers of two with integer exponents\<close>

lemma powi_2_pos [simp]: "(0::real) < 2 powi n"
  by (simp add: zero_less_power_int)

lemma powi_2_nonneg [simp]: "(0::real) \<le> 2 powi n"
  by (rule less_imp_le) simp

lemma powi_2_add: "(2::real) powi (a + b) = 2 powi a * 2 powi b"
  by (simp add: power_int_add)

lemma powi_2_mono: "a \<le> b \<Longrightarrow> (2::real) powi a \<le> 2 powi b"
  by (rule power_int_increasing) simp_all

lemma powi_2_le_iff [simp]: "(2::real) powi a \<le> 2 powi b \<longleftrightarrow> a \<le> b"
  by (metis le_cases not_le one_less_numeral_iff power_int_strict_increasing powi_2_mono
      semiring_norm(76))

lemma powi_2_less_iff [simp]: "(2::real) powi a < 2 powi b \<longleftrightarrow> a < b"
  by (simp add: not_le [symmetric])

lemma powi_2_nat: "0 \<le> a \<Longrightarrow> (2::real) powi a = 2 ^ nat a"
  by (simp add: power_int_def)

lemma powi_2_of_nat [simp]: "(2::real) powi (int n) = 2 ^ n"
  by simp

end
