(* ===== verification/Binary64.thy ===== *)
theory Binary64
  imports Prelude
begin

text \<open>
  The C++ type \<open>double\<close> as IEEE 754 binary64, round to nearest with ties to even, the only
  floating type of the sources. A finite value is a sign, a significand and an exponent,
  \<open>(-1)^s * m * 2^e\<close>; \<open>valid64\<close> says when the triple is the canonical one of a
  binary64 datum. Addition, multiplication, division and square root compute the exact
  result (with a sticky bit where it is not dyadic) and round it once, as IEEE 754
  prescribes. \<open>llround\<close> rounds half away from zero; where its argument does not fit
  \<open>long long\<close> the C++ standard leaves the result unspecified, so it is a parameter.
\<close>

subsection \<open>Data\<close>

datatype binary64 = NaN | Infinity bool | Finite bool nat int

fun valid64 :: "binary64 \<Rightarrow> bool" where
  "valid64 (Finite s m e) \<longleftrightarrow>
     m < 2 ^ 53 \<and> -1074 \<le> e \<and> e \<le> 971 \<and> (m < 2 ^ 52 \<longrightarrow> e = -1074)"
| "valid64 _ = True"

fun is_finite64 :: "binary64 \<Rightarrow> bool" where
  "is_finite64 (Finite s m e) = True"
| "is_finite64 _ = False"

definition sgn64 :: "bool \<Rightarrow> real" where
  "sgn64 s = (if s then -1 else 1)"

fun real64 :: "binary64 \<Rightarrow> real" where
  "real64 (Finite s m e) = sgn64 s * real m * 2 powi e"
| "real64 _ = 0"

subsection \<open>Rounding\<close>

fun bitlen :: "nat \<Rightarrow> nat" where
  "bitlen n = (if n = 0 then 0 else Suc (bitlen (n div 2)))"

declare bitlen.simps [simp del]

definition round_shift :: "nat \<Rightarrow> nat \<Rightarrow> nat" where
  "round_shift m d =
     (let q = m div 2 ^ d; r = m mod 2 ^ d
      in if 2 ^ d < 2 * r \<or> (2 * r = 2 ^ d \<and> odd q) then q + 1 else q)"

definition pack64 :: "bool \<Rightarrow> nat \<Rightarrow> int \<Rightarrow> binary64" where
  "pack64 s q e =
     (let (q', e') = (if q = 2 ^ 53 then (2 ^ 52, e + 1) else (q, e))
      in if 971 < e' then Infinity s else Finite s q' e')"

definition target_exponent :: "nat \<Rightarrow> int \<Rightarrow> int" where
  "target_exponent m e = max (-1074) (e + int (bitlen m) - 53)"

definition round_significand :: "nat \<Rightarrow> int \<Rightarrow> nat" where
  "round_significand m e =
     (let t = target_exponent m e
      in if t \<le> e then m * 2 ^ nat (e - t) else round_shift m (nat (t - e)))"

definition round64 :: "bool \<Rightarrow> nat \<Rightarrow> int \<Rightarrow> binary64" where
  "round64 s m e =
     (if m = 0 then Finite s 0 (-1074)
      else pack64 s (round_significand m e) (target_exponent m e))"

subsection \<open>Arithmetic\<close>

fun fmul64 :: "binary64 \<Rightarrow> binary64 \<Rightarrow> binary64" where
  "fmul64 (Finite s1 m1 e1) (Finite s2 m2 e2) = round64 (s1 \<noteq> s2) (m1 * m2) (e1 + e2)"
| "fmul64 NaN y = NaN"
| "fmul64 x NaN = NaN"
| "fmul64 (Infinity s1) (Infinity s2) = Infinity (s1 \<noteq> s2)"
| "fmul64 (Infinity s1) (Finite s2 m2 e2) = (if m2 = 0 then NaN else Infinity (s1 \<noteq> s2))"
| "fmul64 (Finite s1 m1 e1) (Infinity s2) = (if m1 = 0 then NaN else Infinity (s1 \<noteq> s2))"

definition signed_at :: "bool \<Rightarrow> nat \<Rightarrow> int \<Rightarrow> int \<Rightarrow> int" where
  "signed_at s m e f = (if s then - int (m * 2 ^ nat (e - f)) else int (m * 2 ^ nat (e - f)))"

fun fadd64 :: "binary64 \<Rightarrow> binary64 \<Rightarrow> binary64" where
  "fadd64 (Finite s1 m1 e1) (Finite s2 m2 e2) =
     (let f = min e1 e2; n = signed_at s1 m1 e1 f + signed_at s2 m2 e2 f
      in if n = 0 then Finite (s1 \<and> s2) 0 (-1074) else round64 (n < 0) (nat \<bar>n\<bar>) f)"
| "fadd64 NaN y = NaN"
| "fadd64 x NaN = NaN"
| "fadd64 (Infinity s1) (Infinity s2) = (if s1 = s2 then Infinity s1 else NaN)"
| "fadd64 (Infinity s1) (Finite s2 m2 e2) = Infinity s1"
| "fadd64 (Finite s1 m1 e1) (Infinity s2) = Infinity s2"

text \<open>A quotient \<open>a / b\<close> scaled by \<open>2^e\<close>: 60 more bits than \<open>b\<close> has, then a sticky bit.\<close>

definition round_ratio :: "bool \<Rightarrow> nat \<Rightarrow> nat \<Rightarrow> int \<Rightarrow> binary64" where
  "round_ratio s a b e =
     (let k = 60 + bitlen b; q = a * 2 ^ k div b; r = a * 2 ^ k mod b
      in round64 s (2 * q + (if r = 0 then 0 else 1)) (e - int k - 1))"

fun fdiv64 :: "binary64 \<Rightarrow> binary64 \<Rightarrow> binary64" where
  "fdiv64 (Finite s1 m1 e1) (Finite s2 m2 e2) =
     (if m2 = 0 then (if m1 = 0 then NaN else Infinity (s1 \<noteq> s2))
      else round_ratio (s1 \<noteq> s2) m1 m2 (e1 - e2))"
| "fdiv64 NaN y = NaN"
| "fdiv64 x NaN = NaN"
| "fdiv64 (Infinity s1) (Infinity s2) = NaN"
| "fdiv64 (Infinity s1) (Finite s2 m2 e2) = Infinity (s1 \<noteq> s2)"
| "fdiv64 (Finite s1 m1 e1) (Infinity s2) = Finite (s1 \<noteq> s2) 0 (-1074)"

fun isqrt :: "nat \<Rightarrow> nat" where
  "isqrt n =
     (if n = 0 then 0
      else let r = 2 * isqrt (n div 4) in if (r + 1) * (r + 1) \<le> n then r + 1 else r)"

declare isqrt.simps [simp del]

fun fsqrt64 :: "binary64 \<Rightarrow> binary64" where
  "fsqrt64 NaN = NaN"
| "fsqrt64 (Infinity s) = (if s then NaN else Infinity False)"
| "fsqrt64 (Finite s m e) =
     (if m = 0 then Finite s 0 (-1074)
      else if s then NaN
      else let k = (if even e then 120 else 121); n = m * 2 ^ k; r = isqrt n
           in round64 False (2 * r + (if r * r = n then 0 else 1)) ((e - int k) div 2 - 1))"

subsection \<open>Conversions\<close>

text \<open>\<open>static_cast<double>\<close> of an unsigned integer, and decimal literals \<open>a / b\<close>.\<close>

definition double_of_u64 :: "u64 \<Rightarrow> binary64" where
  "double_of_u64 w = round64 False (unat w) 0"

definition literal64 :: "nat \<Rightarrow> nat \<Rightarrow> binary64" where
  "literal64 a b = round_ratio False a b 0"

fun round_half_away :: "nat \<Rightarrow> int \<Rightarrow> nat" where
  "round_half_away m e =
     (if 0 \<le> e then m * 2 ^ nat e
      else let d = nat (- e) in (m + 2 ^ (d - 1)) div 2 ^ d)"

fun llround_exact :: "binary64 \<Rightarrow> int option" where
  "llround_exact (Finite s m e) =
     (let n = int (round_half_away m e) in Some (if s then - n else n))"
| "llround_exact _ = None"

definition in_int64 :: "int \<Rightarrow> bool" where
  "in_int64 n \<longleftrightarrow> - (2 ^ 63) \<le> n \<and> n < 2 ^ 63"

definition llround64 :: "(binary64 \<Rightarrow> i64) \<Rightarrow> binary64 \<Rightarrow> i64" where
  "llround64 unspecified x =
     (case llround_exact x of
        Some n \<Rightarrow> if in_int64 n then word_of_int n else unspecified x
      | None \<Rightarrow> unspecified x)"

subsection \<open>Bit lengths, shifts and integer square roots\<close>

lemma bitlen_0 [simp]: "bitlen 0 = 0"
  by (simp add: bitlen.simps)

lemma bitlen_rec: "0 < m \<Longrightarrow> bitlen m = Suc (bitlen (m div 2))"
  by (subst bitlen.simps) simp

lemma bitlen_upper: "m < 2 ^ bitlen m"
proof (induction m rule: bitlen.induct)
  case (1 n)
  show ?case
  proof (cases "n = 0")
    case False
    with "1.IH" have "n div 2 < 2 ^ bitlen (n div 2)" by simp
    moreover have "bitlen n = Suc (bitlen (n div 2))" using False by (simp add: bitlen_rec)
    ultimately show ?thesis by simp
  qed simp
qed

lemma bitlen_lower: "0 < m \<Longrightarrow> 2 ^ bitlen m \<le> 2 * m"
proof (induction m rule: bitlen.induct)
  case (1 n)
  show ?case
  proof (cases "n = 1")
    case True
    then show ?thesis by (simp add: bitlen_rec)
  next
    case False
    with "1.prems" have "0 < n div 2" by linarith
    with "1.IH" "1.prems" have "2 ^ bitlen (n div 2) \<le> 2 * (n div 2)" by simp
    moreover have "bitlen n = Suc (bitlen (n div 2))" using "1.prems" by (simp add: bitlen_rec)
    ultimately show ?thesis by simp
  qed
qed

lemma bitlen_pos: "0 < m \<Longrightarrow> 0 < bitlen m"
  by (simp add: bitlen.simps)

lemma round_shift_error:
  "\<bar>real (round_shift m d) - real m / 2 ^ d\<bar> \<le> 1 / 2"
proof -
  define q r where "q = m div 2 ^ d" and "r = m mod 2 ^ d"
  have m: "m = q * 2 ^ d + r" and r: "r < 2 ^ d"
    by (simp_all only: q_def r_def div_mult_mod_eq mod_less_divisor zero_less_power zero_less_numeral)
  have frac: "real m / 2 ^ d = real q + real r / 2 ^ d"
    by (simp add: m add_divide_distrib)
  have "real r < 2 ^ d" using r by (metis of_nat_less_iff of_nat_numeral of_nat_power)
  moreover have "2 * r \<le> 2 ^ d \<Longrightarrow> 2 * real r \<le> 2 ^ d"
    by (metis of_nat_le_iff of_nat_mult of_nat_numeral of_nat_power)
  moreover have "\<not> 2 * r < 2 ^ d \<Longrightarrow> 2 ^ d \<le> 2 * real r"
    by (metis of_nat_le_iff of_nat_mult of_nat_numeral of_nat_power not_le)
  ultimately show ?thesis
    unfolding round_shift_def Let_def q_def [symmetric] r_def [symmetric] frac
    by (auto simp: field_simps not_less)
qed

lemma round_shift_upper: "m < 2 ^ (k + d) \<Longrightarrow> round_shift m d \<le> 2 ^ k"
proof -
  assume "m < 2 ^ (k + d)"
  then have "m div 2 ^ d < 2 ^ k"
    by (simp add: less_mult_imp_div_less power_add)
  then show ?thesis by (simp add: round_shift_def Let_def)
qed

lemma round_shift_lower: "2 ^ (k + d) \<le> m \<Longrightarrow> 2 ^ k \<le> round_shift m d"
proof -
  assume "2 ^ (k + d) \<le> m"
  then have "2 ^ k \<le> m div 2 ^ d"
    by (metis div_le_mono nonzero_mult_div_cancel_right power_add power_not_zero zero_neq_numeral)
  then show ?thesis by (simp add: round_shift_def Let_def)
qed

lemma isqrt_bounds: "isqrt n * isqrt n \<le> n \<and> n < (isqrt n + 1) * (isqrt n + 1)"
proof (induction n rule: isqrt.induct)
  case (1 n)
  show ?case
  proof (cases "n = 0")
    case False
    define q where "q = isqrt (n div 4)"
    from "1.IH" [OF False] have lo: "q * q \<le> n div 4" and hi: "n div 4 < (q + 1) * (q + 1)"
      by (simp_all add: q_def)
    from lo have "(2 * q) * (2 * q) \<le> n" by simp
    moreover from hi have "n < (2 * q + 2) * (2 * q + 2)" by (simp add: algebra_simps)
    moreover have "isqrt n = (if (2 * q + 1) * (2 * q + 1) \<le> n then 2 * q + 1 else 2 * q)"
      using False by (subst isqrt.simps) (simp add: q_def Let_def)
    ultimately show ?thesis by auto
  qed (simp add: isqrt.simps)
qed

subsection \<open>Error of a rounding\<close>

lemma target_exponent_ge: "-1074 \<le> target_exponent m e"
  by (simp add: target_exponent_def)

lemma round_significand_upper:
  assumes "0 < m" shows "round_significand m e \<le> 2 ^ 53"
proof (cases "target_exponent m e \<le> e")
  case True
  define k where "k = nat (e - target_exponent m e)"
  have k: "k + bitlen m \<le> 53" using True by (auto simp: k_def target_exponent_def)
  have "m * 2 ^ k \<le> 2 ^ bitlen m * 2 ^ k" using bitlen_upper [of m] by simp
  also have "\<dots> = 2 ^ (k + bitlen m)" by (simp add: power_add)
  also have "\<dots> \<le> 2 ^ 53" using k by (rule power_increasing) simp
  finally show ?thesis using True by (simp add: round_significand_def Let_def k_def)
next
  case False
  define d where "d = nat (target_exponent m e - e)"
  have d: "bitlen m \<le> 53 + d" using False by (simp add: d_def target_exponent_def)
  have "m < 2 ^ bitlen m" by (rule bitlen_upper)
  also have "\<dots> \<le> 2 ^ (53 + d)" using d by (rule power_increasing) simp
  finally have "round_shift m d \<le> 2 ^ 53" by (rule round_shift_upper)
  then show ?thesis using False by (simp add: round_significand_def Let_def d_def)
qed

lemma round_significand_lower:
  assumes "0 < m" and "-1074 < target_exponent m e" shows "2 ^ 52 \<le> round_significand m e"
proof -
  from assms(2) have t: "target_exponent m e = e + int (bitlen m) - 53"
    by (simp add: target_exponent_def max_def split: if_splits)
  have low: "2 ^ bitlen m \<le> 2 * m" using assms(1) by (rule bitlen_lower)
  show ?thesis
  proof (cases "target_exponent m e \<le> e")
    case True
    define k where "k = nat (e - target_exponent m e)"
    have k: "k + bitlen m = 53" using True t by (simp add: k_def)
    have "2 ^ 53 = 2 ^ bitlen m * (2::nat) ^ k" by (simp only: k [symmetric] power_add mult.commute)
    also have "\<dots> \<le> 2 * m * 2 ^ k" using low by (rule mult_le_mono1)
    finally have "2 ^ 52 \<le> m * 2 ^ k" by simp
    then show ?thesis using True by (simp add: round_significand_def Let_def k_def)
  next
    case False
    define d where "d = nat (target_exponent m e - e)"
    have d: "bitlen m = Suc (52 + d)" using False t by (simp add: d_def)
    have "2 ^ (52 + d) \<le> m" using low unfolding d power_Suc by linarith
    then have "2 ^ 52 \<le> round_shift m d" by (rule round_shift_lower)
    then show ?thesis using False by (simp add: round_significand_def Let_def d_def)
  qed
qed

lemma round_significand_error:
  "\<bar>real (round_significand m e) * 2 powi target_exponent m e - real m * 2 powi e\<bar>
     \<le> 2 powi target_exponent m e / 2"
proof (cases "target_exponent m e \<le> e")
  case True
  have "2 powi e = (2::real) ^ nat (e - target_exponent m e) * 2 powi target_exponent m e"
    using True by (simp add: powi_2_add [symmetric] powi_2_of_nat [symmetric] del: powi_2_of_nat)
  then show ?thesis using True by (simp add: round_significand_def Let_def)
next
  case False
  define d where "d = nat (target_exponent m e - e)"
  have p: "2 powi target_exponent m e = (2::real) ^ d * 2 powi e"
    using False by (simp add: d_def powi_2_add [symmetric] powi_2_of_nat [symmetric] del: powi_2_of_nat)
  have "real (round_shift m d) * (2 ^ d * 2 powi e) - real m * 2 powi e
      = (real (round_shift m d) - real m / 2 ^ d) * (2 ^ d * 2 powi e)"
    by (simp add: field_simps)
  also have "\<bar>\<dots>\<bar> = \<bar>real (round_shift m d) - real m / 2 ^ d\<bar> * (2 ^ d * 2 powi e)"
    by (simp add: abs_mult)
  also have "\<dots> \<le> 1 / 2 * (2 ^ d * 2 powi e)"
    by (intro mult_right_mono round_shift_error) simp
  finally show ?thesis using False
    by (simp add: round_significand_def Let_def d_def [symmetric] p)
qed

lemma pack64_valid:
  "q \<le> 2 ^ 53 \<Longrightarrow> -1074 \<le> e \<Longrightarrow> (-1074 < e \<Longrightarrow> 2 ^ 52 \<le> q) \<Longrightarrow> valid64 (pack64 s q e)"
  by (cases "-1074 < e") (auto simp: pack64_def Let_def not_less)

lemma round64_valid [simp]: "valid64 (round64 s m e)"
  by (auto simp: round64_def intro!: pack64_valid round_significand_upper target_exponent_ge
      round_significand_lower)

lemma pack64_real:
  assumes "e < 971" shows "is_finite64 (pack64 s q e)"
    and "real64 (pack64 s q e) = sgn64 s * real q * 2 powi e"
proof -
  show "is_finite64 (pack64 s q e)" using assms by (simp add: pack64_def)
  have "2 powi (e + 1) = 2 * (2::real) powi e" by (simp add: powi_2_add)
  then show "real64 (pack64 s q e) = sgn64 s * real q * 2 powi e"
    using assms by (simp add: pack64_def)
qed

lemma bitlen_lower_real: "0 < m \<Longrightarrow> 2 powi int (bitlen m) \<le> 2 * real m"
proof -
  assume "0 < m"
  then have "real (2 ^ bitlen m) \<le> real (2 * m)" by (intro of_nat_mono bitlen_lower)
  then show ?thesis by simp
qed

lemma target_exponent_less:
  assumes "0 < m" and "real m * 2 powi e < 2 powi k" shows "target_exponent m e < max (-1073) (k - 52)"
proof -
  have "2 powi int (bitlen m) * 2 powi e \<le> 2 * real m * 2 powi e"
    using bitlen_lower_real [OF assms(1)] by (rule mult_right_mono) simp
  also have "\<dots> < 2 powi 1 * 2 powi k" using assms(2) by simp
  finally have "(2::real) powi (int (bitlen m) + e) < 2 powi (1 + k)"
    by (simp only: powi_2_add)
  then have "int (bitlen m) + e < 1 + k" by (simp only: powi_2_less_iff)
  then show ?thesis by (auto simp: target_exponent_def less_max_iff_disj)
qed

lemma target_exponent_bound:
  fixes a b c :: int
  assumes "0 < m" and "a = -1074" and "b = -53" and "c = -52"
  shows "2 powi target_exponent m e \<le> max (2 powi a) (real m * 2 powi e * 2 powi c)"
proof (cases "-1074 < target_exponent m e")
  case False
  then have "target_exponent m e = a" using target_exponent_ge [of m e] assms(2) by simp
  then show ?thesis by simp
next
  case True
  then have t: "target_exponent m e = e + int (bitlen m) + b"
    using assms(3) by (simp add: target_exponent_def max_def split: if_splits)
  have "2 powi e * 2 powi int (bitlen m) * 2 powi b \<le> 2 powi e * (2 * real m) * 2 powi b"
    using bitlen_lower_real [OF assms(1)] by (intro mult_right_mono mult_left_mono) simp_all
  also have "\<dots> = real m * 2 powi e * (2 powi 1 * 2 powi b)" by simp
  also have "\<dots> = real m * 2 powi e * 2 powi c"
    by (simp only: powi_2_add [symmetric]) (simp add: assms(3,4))
  finally show ?thesis unfolding t powi_2_add by (rule max.coboundedI2)
qed


lemma abs_sgn64 [simp]: "\<bar>sgn64 s\<bar> = 1"
  by (simp add: sgn64_def)

definition rounding_bound :: "real \<Rightarrow> real" where
  "rounding_bound x = max (2 powi (-1074)) (x * 2 powi (-52)) / 2"

lemma round64_finite:
  assumes "real m * 2 powi e < 2 powi k" and "k = 1023"
  shows "is_finite64 (round64 s m e)"
proof (cases "m = 0")
  case False
  then have "target_exponent m e < 971"
    using target_exponent_less [OF _ assms(1)] assms(2) by simp
  then show ?thesis using False by (simp add: round64_def pack64_real)
qed (simp add: round64_def)

lemma round64_error:
  assumes "real m * 2 powi e < 2 powi k" and "k = 1023"
  shows "\<bar>real64 (round64 s m e) - sgn64 s * (real m * 2 powi e)\<bar>
           \<le> rounding_bound (real m * 2 powi e)"
proof (cases "m = 0")
  case True
  then show ?thesis by (simp add: round64_def rounding_bound_def le_max_iff_disj)
next
  case False
  then have m: "0 < m" by simp
  define t q where "t = target_exponent m e" and "q = round_significand m e"
  have "t < 971" unfolding t_def using target_exponent_less [OF m assms(1)] assms(2) by simp
  then have "real64 (round64 s m e) - sgn64 s * (real m * 2 powi e)
      = sgn64 s * (real q * 2 powi t - real m * 2 powi e)"
    using m by (simp add: round64_def pack64_real t_def q_def algebra_simps)
  also have "\<bar>\<dots>\<bar> = \<bar>real q * 2 powi t - real m * 2 powi e\<bar>" by (simp add: abs_mult)
  also have "\<dots> \<le> 2 powi t / 2" unfolding t_def q_def by (rule round_significand_error)
  also have "\<dots> \<le> rounding_bound (real m * 2 powi e)"
    unfolding rounding_bound_def t_def
    by (intro divide_right_mono target_exponent_bound m refl) simp_all
  finally show ?thesis .
qed

subsection \<open>Multiplication, llround\<close>

lemma sgn64_xor: "sgn64 (s1 \<noteq> s2) = sgn64 s1 * sgn64 s2"
  by (auto simp: sgn64_def)

lemma real64_abs: "\<bar>real64 (Finite s m e)\<bar> = real m * 2 powi e"
  by (simp add: abs_mult)

lemma is_finite64_cases:
  assumes "is_finite64 x" obtains s m e where "x = Finite s m e"
  using assms by (cases x) auto

lemma fmul64_error:
  assumes "is_finite64 x" and "is_finite64 y" and "\<bar>real64 x * real64 y\<bar> < 2 powi k" and "k = 1023"
  shows "is_finite64 (fmul64 x y)"
    and "\<bar>real64 (fmul64 x y) - real64 x * real64 y\<bar> \<le> rounding_bound \<bar>real64 x * real64 y\<bar>"
proof -
  obtain s1 m1 e1 s2 m2 e2 where xy: "x = Finite s1 m1 e1" "y = Finite s2 m2 e2"
    using assms(1,2) by (auto elim!: is_finite64_cases)
  have p: "real64 x * real64 y = sgn64 (s1 \<noteq> s2) * (real (m1 * m2) * 2 powi (e1 + e2))"
    unfolding xy real64.simps sgn64_xor powi_2_add by (simp add: mult_ac)
  then have a: "\<bar>real64 x * real64 y\<bar> = real (m1 * m2) * 2 powi (e1 + e2)"
    by (simp add: abs_mult)
  have f: "fmul64 x y = round64 (s1 \<noteq> s2) (m1 * m2) (e1 + e2)" by (simp add: xy)
  show "is_finite64 (fmul64 x y)"
    unfolding f by (rule round64_finite [OF assms(3) [unfolded a] assms(4)])
  show "\<bar>real64 (fmul64 x y) - real64 x * real64 y\<bar> \<le> rounding_bound \<bar>real64 x * real64 y\<bar>"
    unfolding a unfolding f p by (rule round64_error [OF assms(3) [unfolded a] assms(4)])
qed

lemma fmul64_valid: "valid64 x \<Longrightarrow> valid64 y \<Longrightarrow> valid64 (fmul64 x y)"
  by (cases x; cases y) auto

lemma fadd64_valid: "valid64 x \<Longrightarrow> valid64 y \<Longrightarrow> valid64 (fadd64 x y)"
  by (cases x; cases y) (auto simp: Let_def)

lemma fsqrt64_valid: "valid64 (fsqrt64 x)"
  by (cases x) (auto simp: Let_def)

lemma round_half_away_error:
  "\<bar>real (round_half_away m e) - real m * 2 powi e\<bar> \<le> 1 / 2"
proof (cases "0 \<le> e")
  case True
  then show ?thesis by (simp add: powi_2_nat)
next
  case False
  define d where "d = nat (- e) - 1"
  define h q r where "h = (2::nat) ^ d" and "q = (m + h) div (2 * h)" and "r = (m + h) mod (2 * h)"
  have d: "nat (- e) = Suc d" using False by (simp add: d_def)
  have "2 powi e = 1 / (2 ^ Suc d :: real)"
    using False by (simp add: power_int_def d power_one_over)
  then have p: "2 powi e = 1 / (2 * real h)" by (simp add: h_def)
  have h: "0 < h" by (simp add: h_def)
  have "m + h = q * (2 * h) + r" unfolding q_def r_def by (rule div_mult_mod_eq [symmetric])
  then have m: "real m + real h = real q * (2 * real h) + real r"
    by (metis of_nat_add of_nat_mult of_nat_numeral)
  have "r < 2 * h" unfolding r_def using h by simp
  then have r: "real r < 2 * real h" by linarith
  have "real q - real m * (1 / (2 * real h)) = (real h - real r) / (2 * real h)"
    using h m by (simp add: field_simps)
  also have "\<bar>\<dots>\<bar> \<le> 1 / 2"
    using h r by (simp add: abs_le_iff field_simps)
  finally have "\<bar>real q - real m * (1 / (2 * real h))\<bar> \<le> 1 / 2" .
  moreover have "round_half_away m e = q"
    using False by (simp add: d q_def h_def)
  ultimately show ?thesis by (simp add: p)
qed

lemma llround_exact_error:
  assumes "llround_exact x = Some n" shows "\<bar>real_of_int n - real64 x\<bar> \<le> 1 / 2"
proof (cases x)
  case (Finite s m e)
  with assms have "real_of_int n = sgn64 s * real (round_half_away m e)"
    by (auto simp: Let_def sgn64_def simp del: round_half_away.simps)
  then have "real_of_int n - real64 x = sgn64 s * (real (round_half_away m e) - real m * 2 powi e)"
    by (simp add: Finite algebra_simps del: round_half_away.simps)
  then show ?thesis using round_half_away_error [of m e]
    by (simp add: abs_mult del: round_half_away.simps)
qed (use assms in auto)

lemma llround_exact_finite: "is_finite64 x \<Longrightarrow> \<exists>n. llround_exact x = Some n"
  by (auto elim!: is_finite64_cases simp: Let_def)

lemma sint_word_of_int64: "in_int64 n \<Longrightarrow> sint (word_of_int n :: i64) = n"
  by (simp add: in_int64_def sint_sbintrunc' signed_take_bit_int_eq_self)

subsection \<open>Addition and square root\<close>

lemma signed_at_real:
  "f \<le> e \<Longrightarrow> real_of_int (signed_at s m e f) * 2 powi f = real64 (Finite s m e)"
proof -
  assume "f \<le> e"
  then have "(2::real) powi e = 2 ^ nat (e - f) * 2 powi f"
    by (simp add: powi_2_add [symmetric] powi_2_of_nat [symmetric] del: powi_2_of_nat)
  then show ?thesis by (simp add: signed_at_def sgn64_def)
qed

lemma fadd64_error:
  assumes "is_finite64 x" and "is_finite64 y" and "\<bar>real64 x + real64 y\<bar> < 2 powi k" and "k = 1023"
  shows "is_finite64 (fadd64 x y)"
    and "\<bar>real64 (fadd64 x y) - (real64 x + real64 y)\<bar> \<le> rounding_bound \<bar>real64 x + real64 y\<bar>"
proof -
  obtain s1 m1 e1 s2 m2 e2 where xy: "x = Finite s1 m1 e1" "y = Finite s2 m2 e2"
    using assms(1,2) by (auto elim!: is_finite64_cases)
  define f n where "f = min e1 e2" and "n = signed_at s1 m1 e1 f + signed_at s2 m2 e2 f"
  have sum: "real64 x + real64 y = real_of_int n * 2 powi f"
    unfolding xy n_def of_int_add distrib_right by (simp only: f_def signed_at_real min.cobounded1 min.cobounded2)
  have n: "real_of_int n = sgn64 (n < 0) * real (nat \<bar>n\<bar>)" by (simp add: sgn64_def)
  have a: "\<bar>real64 x + real64 y\<bar> = real (nat \<bar>n\<bar>) * 2 powi f"
    unfolding sum by (simp add: abs_mult)
  have sum': "real64 x + real64 y = sgn64 (n < 0) * (real (nat \<bar>n\<bar>) * 2 powi f)"
    unfolding sum by (subst n) simp
  have f: "fadd64 x y = (if n = 0 then Finite (s1 \<and> s2) 0 (-1074) else round64 (n < 0) (nat \<bar>n\<bar>) f)"
    by (simp add: xy n_def f_def Let_def)
  show "is_finite64 (fadd64 x y)"
    using round64_finite [OF assms(3) [unfolded a] assms(4)] by (simp add: f)
  have zero: "n = 0 \<Longrightarrow> real64 (fadd64 x y) = real64 (round64 (n < 0) (nat \<bar>n\<bar>) f)"
    by (simp add: f round64_def)
  have "real64 (fadd64 x y) = real64 (round64 (n < 0) (nat \<bar>n\<bar>) f)"
    using zero by (cases "n = 0") (simp_all add: f)
  then show "\<bar>real64 (fadd64 x y) - (real64 x + real64 y)\<bar> \<le> rounding_bound \<bar>real64 x + real64 y\<bar>"
    unfolding a unfolding sum' using round64_error [OF assms(3) [unfolded a] assms(4)] by simp
qed

lemma isqrt_real:
  shows "real (isqrt n) \<le> sqrt (real n)" and "sqrt (real n) < real (isqrt n) + 1"
proof -
  have "real (isqrt n * isqrt n) \<le> real n" using isqrt_bounds [of n] by linarith
  then show "real (isqrt n) \<le> sqrt (real n)"
    by (intro real_le_rsqrt) (simp add: power2_eq_square)
  have "real n < real ((isqrt n + 1) * (isqrt n + 1))" using isqrt_bounds [of n] by linarith
  then show "sqrt (real n) < real (isqrt n) + 1"
    by (intro real_less_lsqrt) (simp_all add: power2_eq_square algebra_simps)
qed

definition sticky_root :: "nat \<Rightarrow> nat" where
  "sticky_root n = 2 * isqrt n + (if isqrt n * isqrt n = n then 0 else 1)"

lemma sticky_root_error: "\<bar>real (sticky_root n) / 2 - sqrt (real n)\<bar> \<le> 1 / 2"
proof (cases "isqrt n * isqrt n = n")
  case True
  then have "sqrt (real n) = real (isqrt n)"
    by (metis abs_of_nat of_nat_mult real_sqrt_abs2)
  then show ?thesis using True by (simp add: sticky_root_def)
next
  case False
  then have "real (sticky_root n) / 2 = real (isqrt n) + 1 / 2"
    by (simp add: sticky_root_def field_simps)
  then show ?thesis using isqrt_real(1) [of n] isqrt_real(2) [of n] unfolding abs_le_iff by linarith
qed

lemma sqrt_powi_even: "sqrt ((2::real) powi (2 * h)) = 2 powi h"
proof -
  have "(2::real) powi (2 * h) = (2 powi h)\<^sup>2"
    by (simp add: power2_eq_square powi_2_add [symmetric])
  then show ?thesis by simp
qed

lemma fsqrt64_finite_eq:
  assumes "0 < m" and "k = (if even e then 120 else 121)" and "2 * h = e - int k"
  shows "fsqrt64 (Finite False m e) = round64 False (sticky_root (m * 2 ^ k)) (h - 1)"
    and "sqrt (real64 (Finite False m e)) = sqrt (real (m * 2 ^ k)) * 2 powi h"
proof -
  have h: "h = (e - int k) div 2" using assms(3) by simp
  show "fsqrt64 (Finite False m e) = round64 False (sticky_root (m * 2 ^ k)) (h - 1)"
    using assms(1) unfolding h assms(2) by (simp add: Let_def sticky_root_def)
  have "real64 (Finite False m e) = real m * 2 powi (int k + 2 * h)"
    by (simp add: assms(3) sgn64_def)
  also have "\<dots> = real (m * 2 ^ k) * 2 powi (2 * h)"
    by (simp add: powi_2_add)
  finally show "sqrt (real64 (Finite False m e)) = sqrt (real (m * 2 ^ k)) * 2 powi h"
    by (simp only: real_sqrt_mult sqrt_powi_even)
qed

lemma root_exponent: obtains h :: int where "2 * h = e - int (if even e then 120 else 121)"
proof -
  have "even (e - int (if even e then 120 else 121))" by simp
  then obtain h where "e - int (if even e then 120 else 121) = 2 * h" by (elim evenE)
  then show thesis using that by metis
qed


lemma round64_sign_positive: "0 < m \<Longrightarrow> 0 \<le> real64 (round64 False m e)"
  by (auto simp: round64_def pack64_def Let_def sgn64_def split: if_splits)

lemma real64_upper:
  assumes "valid64 (Finite s m e)" and "k = 1024" shows "\<bar>real64 (Finite s m e)\<bar> < 2 powi k"
proof -
  have "real m < real (2 ^ 53)" using assms(1) by (simp only: of_nat_less_iff valid64.simps)
  then have "real m * 2 powi e < 2 powi 53 * 2 powi e" by simp
  also have "\<dots> \<le> 2 powi 53 * 2 powi (k - 53)"
    by (intro mult_left_mono powi_2_mono) (use assms in simp_all)
  also have "\<dots> = 2 powi k" by (simp only: powi_2_add [symmetric]) simp
  finally show ?thesis unfolding real64_abs .
qed

lemma fsqrt64_error:
  assumes "valid64 (Finite False m e)" and "0 < m"
  defines "y \<equiv> sqrt (real64 (Finite False m e))"
  shows "is_finite64 (fsqrt64 (Finite False m e))"
    and "\<bar>real64 (fsqrt64 (Finite False m e)) - y\<bar> \<le> y * 2 powi (-52)"
proof -
  obtain h where h: "2 * h = e - int (if even e then 120 else 121)" by (rule root_exponent)
  define k n N where "k = (if even e then 120 else 121 :: nat)" and "n = m * 2 ^ k" and "N = sticky_root n"
  have kh: "2 * h = e - int k" using h by (simp add: k_def)
  have f: "fsqrt64 (Finite False m e) = round64 False N (h - 1)"
    and y: "y = sqrt (real n) * 2 powi h"
    using fsqrt64_finite_eq [OF assms(2) k_def kh] by (simp_all add: N_def n_def y_def)
  have "(2::nat) ^ 120 \<le> 2 ^ k" by (rule power_increasing) (simp_all add: k_def)
  also have "\<dots> \<le> n" using assms(2) by (simp add: n_def)
  finally have "real (2 ^ 60) * real (2 ^ 60) \<le> real n"
    by (simp only: of_nat_mult [symmetric] of_nat_le_iff power_add [symmetric]) simp
  then have "real (2 ^ 60) \<le> sqrt (real n)"
    by (intro real_le_rsqrt) (simp add: power2_eq_square)
  then have yH: "1152921504606846976 * 2 powi h \<le> y" unfolding y by simp
  define z where "z = real N * 2 powi (h - 1)"
  have "z = real N / 2 * 2 powi h" by (simp add: z_def power_int_diff)
  then have "z - y = (real N / 2 - sqrt (real n)) * 2 powi h"
    by (simp add: y algebra_simps)
  also have "\<bar>\<dots>\<bar> \<le> 1 / 2 * 2 powi h"
    unfolding abs_mult using sticky_root_error [of n] by (intro mult_mono) (simp_all add: N_def)
  finally have zy: "\<bar>z - y\<bar> \<le> 2 powi h / 2" by simp
  have H: "(0::real) < 2 powi h" by simp
  have lo: "2 powi h \<le> z" and hi: "z < 2 * y" using zy yH H by linarith+
  define b c where "b = (1023::int)" and "c = (-52::int)"
  have "y < 2 powi 512"
  proof -
    have "real64 (Finite False m e) < 2 powi (2 * 512)"
      using real64_upper [OF assms(1), of "2 * 512"] by linarith
    then have "y < sqrt (2 powi (2 * 512))" unfolding y_def by (rule real_sqrt_less_mono)
    then show ?thesis by (simp only: sqrt_powi_even)
  qed
  then have "z < 2 powi 1 * 2 powi 512" using hi by simp
  also have "\<dots> \<le> 2 powi b" by (simp only: powi_2_add [symmetric] powi_2_le_iff b_def)
  finally have zb: "real N * 2 powi (h - 1) < 2 powi b" by (simp only: z_def)
  show "is_finite64 (fsqrt64 (Finite False m e))"
    unfolding f by (rule round64_finite [OF zb b_def])
  have e: "-1074 \<le> e" using assms(1) by simp
  then have "-598 \<le> h" using h by (simp split: if_splits)
  then have "2 powi (-1074) \<le> 2 powi h * (2::real) powi c"
    by (simp only: powi_2_add [symmetric] powi_2_le_iff) (simp add: c_def)
  also have "\<dots> \<le> z * 2 powi c" using lo by (intro mult_right_mono) simp_all
  finally have "rounding_bound z = z * 2 powi c / 2" by (simp only: rounding_bound_def c_def max_absorb2)
  moreover have "\<bar>real64 (fsqrt64 (Finite False m e)) - z\<bar> \<le> rounding_bound z"
    using round64_error [OF zb b_def, of False] unfolding f by (simp add: z_def sgn64_def)
  ultimately have "\<bar>real64 (fsqrt64 (Finite False m e)) - z\<bar> \<le> z / 9007199254740992"
    by (simp add: c_def)
  then have "\<bar>real64 (fsqrt64 (Finite False m e)) - y\<bar> \<le> y / 4503599627370496"
    using zy yH H hi by linarith
  then show "\<bar>real64 (fsqrt64 (Finite False m e)) - y\<bar> \<le> y * 2 powi (-52)" by simp
qed

subsection \<open>Evaluation on numerals\<close>

lemma bitlen_numeral:
  "bitlen 1 = 1" "bitlen (Suc 0) = 1" "bitlen (numeral Num.One) = 1"
  "bitlen (numeral (Num.Bit0 n)) = Suc (bitlen (numeral n))"
  "bitlen (numeral (Num.Bit1 n)) = Suc (bitlen (numeral n))"
  by (simp_all add: bitlen_rec)

lemma isqrt_numeral:
  "isqrt 0 = 0" "isqrt 1 = 1" "isqrt (Suc 0) = 1"
  "isqrt (numeral n) =
     (let r = 2 * isqrt (numeral n div 4) in if (r + 1) * (r + 1) \<le> numeral n then r + 1 else r)"
proof -
  show "isqrt 0 = 0" by (simp add: isqrt.simps)
  show 1: "isqrt 1 = 1" by (subst isqrt.simps) (simp add: isqrt.simps [of 0])
  then show "isqrt (Suc 0) = 1" by simp
  show "isqrt (numeral n) =
     (let r = 2 * isqrt (numeral n div 4) in if (r + 1) * (r + 1) \<le> numeral n then r + 1 else r)"
    by (subst isqrt.simps) simp
qed

lemmas eval64 = bitlen_numeral isqrt_numeral literal64_def round_ratio_def round64_def
  target_exponent_def round_significand_def round_shift_def pack64_def double_of_u64_def
  llround64_def in_int64_def signed_at_def Let_def

end
