(* ===== verification/Environment.thy ===== *)
theory Environment
  imports Binary64
begin

text \<open>
  What the sources call and the repository does not contain. The JSON library (nlohmann/json,
  fetched by the build) is a record of the operations the sources use on a type \<open>'j\<close> of JSON
  values; every definition that calls it takes the record as its argument \<open>E\<close>. The same
  record carries the results the C++ standard leaves open: \<open>llround\<close> out of range, \<open>sin\<close> and
  \<open>cos\<close>. The predicates at the end state the documented behaviour the theorems rely on;
  each theorem names those it uses.
\<close>

record 'j env =
  is_object :: "'j \<Rightarrow> bool"
  contains :: "'j \<Rightarrow> string \<Rightarrow> bool"
  at_key :: "'j \<Rightarrow> string \<Rightarrow> 'j"
  is_number_integer :: "'j \<Rightarrow> bool"
  is_number_unsigned :: "'j \<Rightarrow> bool"
  is_number :: "'j \<Rightarrow> bool"
  is_string :: "'j \<Rightarrow> bool"
  get_int64 :: "'j \<Rightarrow> i64"
  get_uint64 :: "'j \<Rightarrow> u64"
  get_int :: "'j \<Rightarrow> i32"
  get_uint :: "'j \<Rightarrow> u32"
  get_double :: "'j \<Rightarrow> binary64"
  get_string :: "'j \<Rightarrow> string"
  json_of_int :: "i32 \<Rightarrow> 'j"
  json_of_int64 :: "i64 \<Rightarrow> 'j"
  json_of_double :: "binary64 \<Rightarrow> 'j"
  json_of_string :: "string \<Rightarrow> 'j"
  json_object :: "(string \<times> 'j) list \<Rightarrow> 'j"
  json_parse :: "string \<Rightarrow> 'j option"  \<comment> \<open>\<open>parse(line, nullptr, false)\<close>; \<open>None\<close>: discarded\<close>
  json_dump :: "'j \<Rightarrow> string"
  llround_unspecified :: "binary64 \<Rightarrow> i64"
  std_sin :: "binary64 \<Rightarrow> binary64"
  std_cos :: "binary64 \<Rightarrow> binary64"

subsection \<open>Documented behaviour of the JSON library\<close>

text \<open>
  Numbers: \<open>is_number_integer\<close> holds of signed and of unsigned integers, an unsigned one is
  read as \<open>int64_t\<close> with the same bits, and \<open>get<int>\<close> converts the stored 64-bit integer by
  \<open>static_cast\<close>, keeping its low 32 bits.
\<close>

definition number_laws :: "'j env \<Rightarrow> bool" where
  "number_laws E \<longleftrightarrow>
     (\<forall>j. is_number_unsigned E j \<longrightarrow> is_number_integer E j) \<and>
     (\<forall>j. is_number_integer E j \<longrightarrow> is_number E j) \<and>
     (\<forall>j. is_number_integer E j \<longrightarrow> get_int E j = ucast (get_int64 E j)) \<and>
     (\<forall>j. is_number_unsigned E j \<longrightarrow> get_int64 E j = get_uint64 E j)"

text \<open>
  Values the program builds: an object made of an initializer list with distinct keys has
  exactly those keys and their values, and a value built from a C++ scalar is of that kind
  and reads back as that scalar.
\<close>

definition object_laws :: "'j env \<Rightarrow> bool" where
  "object_laws E \<longleftrightarrow>
     (\<forall>kvs. is_object E (json_object E kvs)) \<and>
     (\<forall>kvs k. distinct (map fst kvs) \<longrightarrow>
        (contains E (json_object E kvs) k \<longleftrightarrow> map_of kvs k \<noteq> None)) \<and>
     (\<forall>kvs k v. distinct (map fst kvs) \<longrightarrow> map_of kvs k = Some v \<longrightarrow>
        at_key E (json_object E kvs) k = v)"

definition scalar_laws :: "'j env \<Rightarrow> bool" where
  "scalar_laws E \<longleftrightarrow>
     (\<forall>w. is_number_integer E (json_of_int E w) \<and> get_int E (json_of_int E w) = w) \<and>
     (\<forall>w. is_number_integer E (json_of_int64 E w) \<and> get_int64 E (json_of_int64 E w) = w) \<and>
     (\<forall>d. is_number E (json_of_double E d) \<and> get_double E (json_of_double E d) = d) \<and>
     (\<forall>s. is_string E (json_of_string E s) \<and> get_string E (json_of_string E s) = s)"

definition builder_laws :: "'j env \<Rightarrow> bool" where
  "builder_laws E \<longleftrightarrow> object_laws E \<and> scalar_laws E"

lemma builder_lawsD [json_simps]:
  assumes "builder_laws E"
  shows "is_object E (json_object E kvs)"
    and "distinct (map fst kvs) \<Longrightarrow> contains E (json_object E kvs) k \<longleftrightarrow> map_of kvs k \<noteq> None"
    and "distinct (map fst kvs) \<Longrightarrow> map_of kvs k = Some v \<Longrightarrow> at_key E (json_object E kvs) k = v"
    and "is_number_integer E (json_of_int E w)" and "get_int E (json_of_int E w) = w"
    and "is_number_integer E (json_of_int64 E l)" and "get_int64 E (json_of_int64 E l) = l"
    and "is_number E (json_of_double E d)" and "get_double E (json_of_double E d) = d"
    and "is_string E (json_of_string E s)" and "get_string E (json_of_string E s) = s"
  using assms by (simp_all add: builder_laws_def object_laws_def scalar_laws_def)

lemma number_lawsD:
  assumes "number_laws E"
  shows "is_number_unsigned E j \<Longrightarrow> is_number_integer E j"
    and "is_number_integer E j \<Longrightarrow> is_number E j"
    and "is_number_integer E j \<Longrightarrow> get_int E j = ucast (get_int64 E j)"
    and "is_number_unsigned E j \<Longrightarrow> get_int64 E j = get_uint64 E j"
  using assms by (simp_all add: number_laws_def)

subsection \<open>JSON text\<close>

text \<open>
  \<open>same_leaf\<close> and \<open>same_json\<close>: two values the sources cannot tell apart, whatever way the
  library stores a non-negative integer (parsing stores it unsigned, building stores it
  signed).
\<close>

definition same_leaf :: "'j env \<Rightarrow> 'j \<Rightarrow> 'j \<Rightarrow> bool" where
  "same_leaf E a b \<longleftrightarrow>
     is_number_integer E a = is_number_integer E b \<and>
     is_number E a = is_number E b \<and>
     is_string E a = is_string E b \<and>
     (is_number_integer E a \<longrightarrow> get_int64 E a = get_int64 E b) \<and>
     (is_number E a \<longrightarrow> get_double E a = get_double E b) \<and>
     (is_string E a \<longrightarrow> get_string E a = get_string E b)"

definition same_json :: "'j env \<Rightarrow> 'j \<Rightarrow> 'j \<Rightarrow> bool" where
  "same_json E a b \<longleftrightarrow>
     is_object E a = is_object E b \<and>
     (\<forall>k. contains E a k = contains E b k) \<and>
     (\<forall>k. is_object E a \<and> contains E a k \<longrightarrow> same_leaf E (at_key E a k) (at_key E b k))"

definition printable :: "string \<Rightarrow> bool" where
  "printable s \<longleftrightarrow> (\<forall>c \<in> set s. 32 \<le> (of_char c :: nat) \<and> (of_char c :: nat) < 127)"

definition plain_leaf :: "'j env \<Rightarrow> 'j \<Rightarrow> bool" where
  "plain_leaf E v \<longleftrightarrow>
     (\<exists>w. v = json_of_int E w) \<or> (\<exists>w. v = json_of_int64 E w) \<or>
     (\<exists>d. v = json_of_double E d \<and> is_finite64 d \<and> valid64 d) \<or>
     (\<exists>s. v = json_of_string E s \<and> printable s)"

definition plain_fields :: "'j env \<Rightarrow> (string \<times> 'j) list \<Rightarrow> bool" where
  "plain_fields E kvs \<longleftrightarrow>
     distinct (map fst kvs) \<and> (\<forall>(k, v) \<in> set kvs. printable k \<and> plain_leaf E v)"

text \<open>
  \<open>dump()\<close> without indentation writes one line, and parsing it gives the value back: for an
  object with distinct printable keys whose fields are integers, printable strings and
  finite doubles (the library prints doubles so that they round-trip; it prints infinities
  and NaN as \<open>null\<close>, which is why they are excluded).
\<close>

definition text_laws :: "'j env \<Rightarrow> bool" where
  "text_laws E \<longleftrightarrow>
     (\<forall>kvs. plain_fields E kvs \<longrightarrow>
        json_dump E (json_object E kvs) \<noteq> [] \<and>
        list_all (\<lambda>c. 32 \<le> (of_char c :: nat)) (json_dump E (json_object E kvs)) \<and>
        (\<exists>j. json_parse E (json_dump E (json_object E kvs)) = Some j \<and>
           same_json E (json_object E kvs) j))"

lemma text_lawsD:
  assumes "text_laws E" and "plain_fields E kvs"
  shows "json_dump E (json_object E kvs) \<noteq> []"
    and "list_all (\<lambda>c. 32 \<le> (of_char c :: nat)) (json_dump E (json_object E kvs))"
    and "\<exists>j. json_parse E (json_dump E (json_object E kvs)) = Some j \<and>
           same_json E (json_object E kvs) j"
  using assms unfolding text_laws_def by blast+

end
