(* ===== verification/JsonInstance.thy ===== *)
theory JsonInstance
  imports Environment
begin

text \<open>
  A concrete JSON library for the witnesses: it shows that the documented laws named as
  hypotheses hold together, and lets the witnesses evaluate the model on real messages. It
  models no code of the repository. Its text is a compact tagged form, one line per object.
  As the real library does, it reads a non-negative integer back as an unsigned one.
\<close>

datatype jval =
  JNull | JInt i64 | JUint u64 | JFloat binary64 | JStr string | JObj "(string \<times> jval) list"

subsection \<open>Text form\<close>

fun enc_nat :: "nat \<Rightarrow> string" where
  "enc_nat n =
     (if n = 0 then '';''
      else (if odd n then CHR ''1'' else CHR ''0'') # enc_nat (n div 2))"

declare enc_nat.simps [simp del]

fun dec_nat :: "string \<Rightarrow> nat \<times> string" where
  "dec_nat [] = (0, [])"
| "dec_nat (c # s) =
     (if c = CHR '';'' then (0, s)
      else let (n, r) = dec_nat s in ((if c = CHR ''1'' then 1 else 0) + 2 * n, r))"

lemma dec_enc_nat [simp]: "dec_nat (enc_nat n @ s) = (n, s)"
proof (induction n rule: enc_nat.induct)
  case (1 n)
  show ?case
  proof (cases "n = 0")
    case True
    then show ?thesis by (simp add: enc_nat.simps)
  next
    case False
    with "1.IH" have "dec_nat (enc_nat (n div 2) @ s) = (n div 2, s)" by simp
    then show ?thesis using False by (subst enc_nat.simps) (auto simp: odd_two_times_div_two_succ)
  qed
qed

definition enc_str :: "string \<Rightarrow> string" where
  "enc_str t = enc_nat (length t) @ t"

definition dec_str :: "string \<Rightarrow> string \<times> string" where
  "dec_str s = (let (n, r) = dec_nat s in (take n r, drop n r))"

lemma dec_enc_str [simp]: "dec_str (enc_str t @ s) = (t, s)"
  by (simp add: dec_str_def enc_str_def)

fun enc_leaf :: "jval \<Rightarrow> string" where
  "enc_leaf (JInt w) = (if 0 \<le> sint w then CHR ''u'' else CHR ''i'') # enc_nat (unat w)"
| "enc_leaf (JUint w) = CHR ''u'' # enc_nat (unat w)"
| "enc_leaf (JFloat (Finite s m e)) =
     (if s then CHR ''g'' else CHR ''f'') # enc_nat m @ enc_nat (nat (e + 1074))"
| "enc_leaf (JStr t) = CHR ''s'' # enc_str t"
| "enc_leaf _ = ''n''"

fun dec_leaf :: "string \<Rightarrow> (jval \<times> string) option" where
  "dec_leaf (c # s) =
     (if c = CHR ''u'' then let (n, r) = dec_nat s in Some (JUint (of_nat n), r)
      else if c = CHR ''i'' then let (n, r) = dec_nat s in Some (JInt (of_nat n), r)
      else if c = CHR ''g'' \<or> c = CHR ''f'' then
        let (m, r) = dec_nat s; (k, q) = dec_nat r
        in Some (JFloat (Finite (c = CHR ''g'') m (int k - 1074)), q)
      else if c = CHR ''s'' then let (t, r) = dec_str s in Some (JStr t, r)
      else if c = CHR ''n'' then Some (JNull, s)
      else None)"
| "dec_leaf [] = None"

fun reread :: "jval \<Rightarrow> jval" where
  "reread (JInt w) = (if 0 \<le> sint w then JUint w else JInt w)"
| "reread v = v"

fun plain_jval :: "jval \<Rightarrow> bool" where
  "plain_jval (JInt w) = True"
| "plain_jval (JFloat d) = (is_finite64 d \<and> valid64 d)"
| "plain_jval (JStr t) = printable t"
| "plain_jval _ = False"

lemma dec_enc_leaf: "plain_jval v \<Longrightarrow> dec_leaf (enc_leaf v @ s) = Some (reread v, s)"
  by (cases v rule: enc_leaf.cases) auto

fun enc_fields :: "(string \<times> jval) list \<Rightarrow> string" where
  "enc_fields [] = ''}''"
| "enc_fields ((k, v) # kvs) = CHR '','' # enc_str k @ enc_leaf v @ enc_fields kvs"

fun dec_fields :: "nat \<Rightarrow> string \<Rightarrow> (string \<times> jval) list option" where
  "dec_fields 0 s = None"
| "dec_fields (Suc fuel) s =
     (case s of
        [] \<Rightarrow> None
      | c # r \<Rightarrow>
          if c = CHR ''}'' then Some []
          else if c = CHR '','' then
            (let (k, r1) = dec_str r in
             case dec_leaf r1 of
               None \<Rightarrow> None
             | Some (v, r2) \<Rightarrow> map_option ((#) (k, v)) (dec_fields fuel r2))
          else None)"

lemma dec_enc_fields:
  "\<forall>(k, v) \<in> set kvs. plain_jval v \<Longrightarrow> length kvs < fuel \<Longrightarrow>
   dec_fields fuel (enc_fields kvs) = Some (map (\<lambda>(k, v). (k, reread v)) kvs)"
proof (induction kvs arbitrary: fuel)
  case Nil
  then show ?case by (cases fuel) auto
next
  case (Cons kv kvs)
  obtain k v where kv: "kv = (k, v)" by (cases kv)
  from Cons.prems(2) obtain f where f: "fuel = Suc f" "length kvs < f" by (cases fuel) auto
  from Cons.IH [OF _ f(2)] Cons.prems(1)
  have "dec_fields f (enc_fields kvs) = Some (map (\<lambda>(k, v). (k, reread v)) kvs)" by simp
  moreover have "plain_jval v" using Cons.prems(1) kv by simp
  ultimately show ?case by (simp add: kv f(1) dec_enc_leaf)
qed

lemma length_enc_fields: "length kvs < length (enc_fields kvs)"
  by (induction kvs rule: enc_fields.induct) auto

fun dump_text :: "jval \<Rightarrow> string" where
  "dump_text (JObj kvs) = CHR ''{'' # enc_fields kvs"
| "dump_text v = enc_leaf v"

fun parse_text :: "string \<Rightarrow> jval option" where
  "parse_text (c # s) =
     (if c = CHR ''{'' then map_option JObj (dec_fields (length s) s) else None)"
| "parse_text [] = None"

lemma parse_dump:
  "\<forall>(k, v) \<in> set kvs. plain_jval v \<Longrightarrow>
   parse_text (dump_text (JObj kvs)) = Some (JObj (map (\<lambda>(k, v). (k, reread v)) kvs))"
  by (simp add: dec_enc_fields length_enc_fields)

lemma enc_nat_visible: "list_all (\<lambda>c. 32 \<le> (of_char c :: nat)) (enc_nat n)"
proof (induction n rule: enc_nat.induct)
  case (1 n)
  then show ?case by (subst enc_nat.simps) simp
qed

lemma printable_visible: "printable s \<Longrightarrow> list_all (\<lambda>c. 32 \<le> (of_char c :: nat)) s"
  by (auto simp: printable_def list_all_iff)

lemma enc_leaf_visible: "plain_jval v \<Longrightarrow> list_all (\<lambda>c. 32 \<le> (of_char c :: nat)) (enc_leaf v)"
  by (cases v rule: enc_leaf.cases) (auto simp: enc_nat_visible enc_str_def printable_visible)

lemma dump_visible:
  "\<forall>(k, v) \<in> set kvs. printable k \<and> plain_jval v \<Longrightarrow>
   list_all (\<lambda>c. 32 \<le> (of_char c :: nat)) (dump_text (JObj kvs))"
  by (induction kvs) (auto simp: enc_str_def enc_nat_visible enc_leaf_visible printable_visible)

subsection \<open>The library and its laws\<close>

fun jval_fields :: "jval \<Rightarrow> (string \<times> jval) list" where
  "jval_fields (JObj kvs) = kvs"
| "jval_fields _ = []"

fun jval_bits :: "jval \<Rightarrow> u64" where
  "jval_bits (JInt w) = w"
| "jval_bits (JUint w) = w"
| "jval_bits _ = 0"

fun jval_double :: "jval \<Rightarrow> binary64" where
  "jval_double (JInt w) = round64 (sint w < 0) (nat \<bar>sint w\<bar>) 0"
| "jval_double (JUint w) = double_of_u64 w"
| "jval_double (JFloat d) = d"
| "jval_double _ = NaN"

fun jval_string :: "jval \<Rightarrow> string" where
  "jval_string (JStr s) = s"
| "jval_string _ = []"

definition is_JObj :: "jval \<Rightarrow> bool" where
  "is_JObj v = (case v of JObj _ \<Rightarrow> True | _ \<Rightarrow> False)"
definition is_JInteger :: "jval \<Rightarrow> bool" where
  "is_JInteger v = (case v of JInt _ \<Rightarrow> True | JUint _ \<Rightarrow> True | _ \<Rightarrow> False)"
definition is_JUint :: "jval \<Rightarrow> bool" where
  "is_JUint v = (case v of JUint _ \<Rightarrow> True | _ \<Rightarrow> False)"
definition is_JNumber :: "jval \<Rightarrow> bool" where
  "is_JNumber v = (case v of JInt _ \<Rightarrow> True | JUint _ \<Rightarrow> True | JFloat _ \<Rightarrow> True | _ \<Rightarrow> False)"
definition is_JStr :: "jval \<Rightarrow> bool" where
  "is_JStr v = (case v of JStr _ \<Rightarrow> True | _ \<Rightarrow> False)"

lemmas jval_kinds = is_JObj_def is_JInteger_def is_JUint_def is_JNumber_def is_JStr_def

definition jenv :: "jval env" where
  "jenv =
     \<lparr>is_object = is_JObj,
      contains = (\<lambda>v k. map_of (jval_fields v) k \<noteq> None),
      at_key = (\<lambda>v k. case map_of (jval_fields v) k of Some w \<Rightarrow> w | None \<Rightarrow> JNull),
      is_number_integer = is_JInteger, is_number_unsigned = is_JUint,
      is_number = is_JNumber, is_string = is_JStr,
      get_int64 = jval_bits, get_uint64 = jval_bits,
      get_int = (\<lambda>v. ucast (jval_bits v)), get_uint = (\<lambda>v. ucast (jval_bits v)),
      get_double = jval_double, get_string = jval_string,
      json_of_int = (\<lambda>w. JInt (scast w)), json_of_int64 = JInt, json_of_double = JFloat,
      json_of_string = JStr, json_object = JObj, json_parse = parse_text, json_dump = dump_text,
      llround_unspecified = (\<lambda>_. 0x8000000000000000),
      std_sin = (\<lambda>_. Finite False 0 (-1074)), std_cos = (\<lambda>_. Finite False (2 ^ 52) (-52))\<rparr>"

lemma jenv_simps [simp]:
  "is_object jenv = is_JObj"
  "contains jenv = (\<lambda>v k. map_of (jval_fields v) k \<noteq> None)"
  "at_key jenv = (\<lambda>v k. case map_of (jval_fields v) k of Some w \<Rightarrow> w | None \<Rightarrow> JNull)"
  "is_number_integer jenv = is_JInteger" "is_number_unsigned jenv = is_JUint"
  "is_number jenv = is_JNumber" "is_string jenv = is_JStr"
  "get_int64 jenv = jval_bits" "get_uint64 jenv = jval_bits"
  "get_int jenv = (\<lambda>v. ucast (jval_bits v))" "get_uint jenv = (\<lambda>v. ucast (jval_bits v))"
  "get_double jenv = jval_double" "get_string jenv = jval_string"
  "json_of_int jenv = (\<lambda>w. JInt (scast w))" "json_of_int64 jenv = JInt"
  "json_of_double jenv = JFloat" "json_of_string jenv = JStr" "json_object jenv = JObj"
  "json_parse jenv = parse_text" "json_dump jenv = dump_text"
  "llround_unspecified jenv = (\<lambda>_. 0x8000000000000000)"
  by (simp_all add: jenv_def)

lemma jenv_number_laws: "number_laws jenv"
  by (auto simp: number_laws_def jval_kinds split: jval.splits)

lemma ucast_scast_i32: "ucast (scast (w :: i32) :: i64) = w"
  by transfer (simp add: take_bit_signed_take_bit)

lemma jenv_builder_laws: "builder_laws jenv"
  by (simp add: builder_laws_def object_laws_def scalar_laws_def jval_kinds ucast_scast_i32)

lemma plain_leaf_jenv: "plain_leaf jenv v \<longleftrightarrow> plain_jval v"
  by (cases v) (auto simp: plain_leaf_def)

lemma nat_sint_nonneg: "0 \<le> sint (w :: i64) \<Longrightarrow> nat (sint w) = unat w"
proof -
  assume "0 \<le> sint w"
  moreover have "sint w = signed_take_bit 63 (uint w)" by (simp add: sint_uint)
  ultimately have "\<not> bit (uint w) 63" by (simp add: signed_take_bit_nonnegative_iff)
  then have "sint w = take_bit 63 (uint w)" and "take_bit (Suc 63) (uint w) = take_bit 63 (uint w)"
    by (simp_all only: take_bit_Suc_from_most) (simp_all add: sint_uint signed_take_bit_eq_if_positive)
  moreover have "take_bit (Suc 63) (uint w) = uint w"
    by (rule bintr_uint) simp
  ultimately show ?thesis by simp
qed

lemma reread_same: "same_leaf jenv v (reread v)"
  by (cases v) (auto simp: same_leaf_def jval_kinds double_of_u64_def nat_sint_nonneg)

lemma map_of_reread:
  "map_of (map (\<lambda>(k, v). (k, reread v)) kvs) k = map_option reread (map_of kvs k)"
  by (induction kvs) auto

lemma jenv_text_laws: "text_laws jenv"
proof -
  have "dump_text (JObj kvs) \<noteq> [] \<and>
        list_all (\<lambda>c. 32 \<le> (of_char c :: nat)) (dump_text (JObj kvs)) \<and>
        (\<exists>j. parse_text (dump_text (JObj kvs)) = Some j \<and> same_json jenv (JObj kvs) j)"
    if "plain_fields jenv kvs" for kvs
  proof -
    from that have p: "\<forall>(k, v) \<in> set kvs. printable k \<and> plain_jval v"
      by (simp add: plain_fields_def plain_leaf_jenv)
    have "same_json jenv (JObj kvs) (JObj (map (\<lambda>(k, v). (k, reread v)) kvs))"
      by (auto simp: same_json_def map_of_reread is_JObj_def reread_same split: option.splits)
    moreover have "\<forall>(k, v) \<in> set kvs. plain_jval v" using p by auto
    ultimately show ?thesis using parse_dump [of kvs] dump_visible [OF p]
      by (simp del: dump_text.simps parse_text.simps) simp
  qed
  then show ?thesis by (simp add: text_laws_def)
qed

end
