(* ===== verification/AccelPacket.thy ===== *)
theory AccelPacket
  imports Binary64
begin

text \<open>
  The two data structures that travel through the system, \<open>include/common/accel_packet.hpp\<close>
  and \<open>include/common/accel_module.hpp\<close>, and the duplicate test the server filters with.
  \<open>unspecified\<close> is the value \<open>llround\<close> returns where the C++ standard leaves it open.
\<close>

record AccelPacket =
  accel_timestamp :: i64
  accel_x :: binary64
  accel_y :: binary64
  accel_z :: binary64

record AccelModule =
  module_timestamp :: i64
  module_value :: binary64

definition RoundAxisValue :: "(binary64 \<Rightarrow> i64) \<Rightarrow> binary64 \<Rightarrow> i64" where
  "RoundAxisValue unspecified value = llround64 unspecified (fmul64 value (literal64 1000 1))"

definition IsDuplicate :: "(binary64 \<Rightarrow> i64) \<Rightarrow> AccelPacket \<Rightarrow> AccelPacket \<Rightarrow> bool" where
  "IsDuplicate unspecified lhs rhs \<longleftrightarrow>
     RoundAxisValue unspecified (accel_x lhs) = RoundAxisValue unspecified (accel_x rhs) \<and>
     RoundAxisValue unspecified (accel_y lhs) = RoundAxisValue unspecified (accel_y rhs) \<and>
     RoundAxisValue unspecified (accel_z lhs) = RoundAxisValue unspecified (accel_z rhs)"

text \<open>A value-initialised packet, the first \<open>last_accel_packet_\<close> of a session.\<close>

definition default_packet :: AccelPacket where
  "default_packet =
     \<lparr>accel_timestamp = 0, accel_x = Finite False 0 (-1074), accel_y = Finite False 0 (-1074),
      accel_z = Finite False 0 (-1074)\<rparr>"

subsection \<open>The key a packet is compared by\<close>

definition packet_key :: "(binary64 \<Rightarrow> i64) \<Rightarrow> AccelPacket \<Rightarrow> i64 \<times> i64 \<times> i64" where
  "packet_key unspecified p =
     (RoundAxisValue unspecified (accel_x p), RoundAxisValue unspecified (accel_y p),
      RoundAxisValue unspecified (accel_z p))"

lemma IsDuplicate_key: "IsDuplicate u p q \<longleftrightarrow> packet_key u p = packet_key u q"
  by (simp add: IsDuplicate_def packet_key_def)

subsection \<open>How far apart duplicates can be\<close>

lemma literal_1000: "literal64 1000 1 = Finite False 8796093022208000 (-43)"
  by (simp add: eval64)

lemma literal_1000_real: "real64 (literal64 1000 1) = 1000"
  unfolding literal_1000 by (simp add: sgn64_def)

lemma rounding_bound_small: "\<bar>t\<bar> \<le> 1000000000 \<Longrightarrow> rounding_bound \<bar>t\<bar> \<le> 1 / 1000000"
proof -
  assume t: "\<bar>t\<bar> \<le> 1000000000"
  have "(2::real) powi (-1074) \<le> 2 powi (-52)" by (rule powi_2_mono) simp
  moreover have "(2::real) powi (-52) = 1 / 4503599627370496" by simp
  ultimately have "(2::real) powi (-1074) \<le> 1 / 4503599627370496" by linarith
  moreover have "\<bar>t\<bar> * 2 powi (-52) = \<bar>t\<bar> / 4503599627370496" by simp
  ultimately show ?thesis using t unfolding rounding_bound_def by (simp only: max_def) (simp; linarith)
qed

lemma RoundAxisValue_error:
  assumes "is_finite64 v" and "\<bar>real64 v\<bar> \<le> 1000000"
  shows "\<bar>real_of_int (sint (RoundAxisValue u v)) - 1000 * real64 v\<bar> \<le> 1 / 2 + 1 / 1000000"
proof -
  define w k where "w = fmul64 v (literal64 1000 1)" and "k = (1023::int)"
  have prod: "real64 v * real64 (literal64 1000 1) = 1000 * real64 v"
    unfolding literal_1000_real by simp
  have small: "\<bar>1000 * real64 v\<bar> \<le> 1000000000" using assms(2) by simp
  have "(2::real) powi 40 \<le> 2 powi k" by (rule powi_2_mono) (simp add: k_def)
  moreover have "(1000000000::real) < 2 powi 40" by simp
  ultimately have lt: "\<bar>1000 * real64 v\<bar> < 2 powi k" using small by linarith
  have lit: "is_finite64 (literal64 1000 1)" unfolding literal_1000 by simp
  note err = fmul64_error [OF assms(1) lit, unfolded prod, OF lt k_def, folded w_def]
  have "\<bar>real64 w - 1000 * real64 v\<bar> \<le> 1 / 1000000"
    using err(2) rounding_bound_small [OF small] by linarith
  moreover obtain n where n: "llround_exact w = Some n"
    using llround_exact_finite [OF err(1)] by blast
  moreover have "\<bar>real_of_int n - real64 w\<bar> \<le> 1 / 2" using n by (rule llround_exact_error)
  ultimately have close: "\<bar>real_of_int n - 1000 * real64 v\<bar> \<le> 1 / 2 + 1 / 1000000" by linarith
  then have "\<bar>real_of_int n\<bar> \<le> 2000000000" using small by linarith
  then have "real_of_int \<bar>n\<bar> \<le> real_of_int 2000000000" by simp
  then have "\<bar>n\<bar> \<le> 2000000000" by (simp only: of_int_le_iff)
  then have "in_int64 n" by (auto simp: in_int64_def)
  then have "RoundAxisValue u v = word_of_int n"
    unfolding RoundAxisValue_def w_def [symmetric] llround64_def n by simp
  then have "sint (RoundAxisValue u v) = n" using \<open>in_int64 n\<close> by (simp add: sint_word_of_int64)
  then show ?thesis using close by simp
qed

text \<open>The axes of a packet an accelerometer can produce: finite, at most a million in size.\<close>

definition sane_axis :: "binary64 \<Rightarrow> bool" where
  "sane_axis v \<longleftrightarrow> is_finite64 v \<and> \<bar>real64 v\<bar> \<le> 1000000"

definition sane_packet :: "AccelPacket \<Rightarrow> bool" where
  "sane_packet p \<longleftrightarrow> sane_axis (accel_x p) \<and> sane_axis (accel_y p) \<and> sane_axis (accel_z p)"

lemma same_key_axis_close:
  assumes "sane_axis v" and "sane_axis w" and "RoundAxisValue u v = RoundAxisValue u w"
  shows "\<bar>real64 v - real64 w\<bar> \<le> 1 / 1000 + 1 / 100000000"
proof -
  define n where "n = real_of_int (sint (RoundAxisValue u w))"
  have "\<bar>n - 1000 * real64 v\<bar> \<le> 1 / 2 + 1 / 1000000" and "\<bar>n - 1000 * real64 w\<bar> \<le> 1 / 2 + 1 / 1000000"
    using RoundAxisValue_error [of v u] RoundAxisValue_error [of w u] assms
    by (simp_all only: sane_axis_def n_def)
  then show ?thesis by linarith
qed

text \<open>
  The server's duplicate test is an equivalence relation on packets, whatever \<open>llround\<close>
  returns out of range: it compares the three axes rounded to a thousandth.
\<close>

lemma IsDuplicate_equivalence: "equivp (IsDuplicate u)"
  by (rule equivpI) (auto simp: reflp_def symp_def transp_def IsDuplicate_key)

text \<open>
  C37. No packet is taken for a duplicate of one that differs from it on some axis by
  noticeably more than a thousandth: for axes up to a million, duplicates agree on every
  axis up to \<open>0.001 + 10^-8\<close>, the rounding of \<open>value * 1000.0\<close> included.
\<close>

theorem duplicates_are_close:
  assumes "sane_packet p" and "sane_packet q" and "IsDuplicate u p q"
  shows "\<bar>real64 (accel_x p) - real64 (accel_x q)\<bar> \<le> 1 / 1000 + 1 / 100000000 \<and>
         \<bar>real64 (accel_y p) - real64 (accel_y q)\<bar> \<le> 1 / 1000 + 1 / 100000000 \<and>
         \<bar>real64 (accel_z p) - real64 (accel_z q)\<bar> \<le> 1 / 1000 + 1 / 100000000"
  using assms unfolding sane_packet_def IsDuplicate_def
  by (intro conjI same_key_axis_close [of _ _ u]) simp_all

text \<open>Two readings that differ by a ten-thousandth on the first axis.\<close>

definition sample_packet :: "i64 \<Rightarrow> nat \<Rightarrow> AccelPacket" where
  "sample_packet ts n =
     \<lparr>accel_timestamp = ts, accel_x = literal64 n 10000, accel_y = literal64 98 10,
      accel_z = literal64 0 1\<rparr>"

lemma sample_axes:
  "literal64 5000 10000 = Finite False (2 ^ 52) (-53)"
  "literal64 5001 10000 = Finite False 4504500347295970 (-53)"
  "literal64 98 10 = Finite False 5516909543528858 (-49)"
  "literal64 0 1 = Finite False 0 (-1074)"
  by (simp_all add: eval64)

lemma sample_keys:
  "RoundAxisValue u (literal64 5000 10000) = 500" "RoundAxisValue u (literal64 5001 10000) = 500"
  by (simp_all add: RoundAxisValue_def eval64)

lemma sample_sane: "sane_packet (sample_packet t 5000)" "sane_packet (sample_packet t 5001)"
  unfolding sane_packet_def sane_axis_def sample_packet_def AccelPacket.simps sample_axes
  by (simp_all add: sgn64_def)

lemma sample_duplicate: "IsDuplicate u (sample_packet t 5000) (sample_packet t' 5001)"
  by (simp add: IsDuplicate_def sample_packet_def sample_keys)

theorem duplicates_are_close_witness:
  "\<bar>real64 (accel_x (sample_packet 7 5000)) - real64 (accel_x (sample_packet 8 5001))\<bar>
     \<le> 1 / 1000 + 1 / 100000000"
  using duplicates_are_close [OF sample_sane(1) [of 7] sample_sane(2) [of 8]
      sample_duplicate [of "\<lambda>_. 0" 7 8]] by (rule conjunct1)

text \<open>
  Out of \<open>long long\<close>'s range nothing of the axis is left: where \<open>llround\<close> returns one fixed
  value there (as common implementations do), readings of \<open>10^17\<close> and \<open>2 * 10^17\<close> are
  duplicates of each other.
\<close>

lemma out_of_range_collapse:
  "IsDuplicate (\<lambda>_. c) (default_packet\<lparr>accel_x := literal64 100000000000000000 1\<rparr>)
     (default_packet\<lparr>accel_x := literal64 200000000000000000 1\<rparr>)"
proof -
  have "RoundAxisValue (\<lambda>_. c) (literal64 100000000000000000 1) = c"
    and "RoundAxisValue (\<lambda>_. c) (literal64 200000000000000000 1) = c"
    by (simp_all add: RoundAxisValue_def eval64)
  then show ?thesis unfolding IsDuplicate_def default_packet_def AccelPacket.simps by simp
qed

end
