(* ===== verification/JsonProtocol.thy ===== *)
theory JsonProtocol
  imports JsonInstance AccelPacket
begin

text \<open>
  \<open>include/common/json_protocol.hpp\<close> and \<open>src/common/json_protocol.cpp\<close>: building and
  validating the three JSON messages. \<open>Status\<close> and \<open>Result<T>\<close> are a sum with the two
  factories of the source as constructors; a function that returns at the first failing
  check is a chain of cases in the order of the checks.
\<close>

subsection \<open>Results\<close>

datatype 'a Result = success 'a | failure string

type_synonym Status = "unit Result"

fun ok :: "'a Result \<Rightarrow> bool" where
  "ok (success v) = True"
| "ok (failure m) = False"

text \<open>The idiom \<open>if (!r) return failure(r.error);\<close> with the rest of the function after it.\<close>

definition and_then :: "'a Result \<Rightarrow> ('a \<Rightarrow> 'b Result) \<Rightarrow> 'b Result" where
  "and_then r f = (case r of success v \<Rightarrow> f v | failure m \<Rightarrow> failure m)"

lemma and_then_simps [simp]:
  "and_then (success v) f = f v" "and_then (failure m) f = failure m"
  by (simp_all add: and_then_def)

lemma and_then_success_iff [simp]:
  "and_then r f = success w \<longleftrightarrow> (\<exists>v. r = success v \<and> f v = success w)"
  by (cases r) simp_all

lemma and_then_failure_iff:
  "and_then r f = failure m \<longleftrightarrow> r = failure m \<or> (\<exists>v. r = success v \<and> f v = failure m)"
  by (cases r) simp_all

subsection \<open>Constants and decimal output\<close>

definition k_protocol_version :: i32 where "k_protocol_version = 1"
definition k_type_hello :: string where "k_type_hello = ''hello''"
definition k_type_accel :: string where "k_type_accel = ''accel''"
definition k_type_module :: string where "k_type_module = ''module''"
definition k_role_A :: string where "k_role_A = ''A''"
definition k_role_B :: string where "k_role_B = ''B''"

lemmas protocol_constants = k_protocol_version_def k_type_hello_def k_type_accel_def
  k_type_module_def k_role_A_def k_role_B_def

text \<open>\<open>std::to_string(int)\<close>.\<close>

fun digits :: "nat \<Rightarrow> string" where
  "digits n = (if n < 10 then [char_of (48 + n)] else digits (n div 10) @ [char_of (48 + n mod 10)])"

declare digits.simps [simp del]

definition to_string :: "int \<Rightarrow> string" where
  "to_string i = (if i < 0 then ''-'' @ digits (nat (- i)) else digits (nat i))"

subsection \<open>Field access (namespace \<open>detail\<close>)\<close>

definition validateObject :: "'j env \<Rightarrow> 'j \<Rightarrow> Status" where
  "validateObject E json =
     (if \<not> is_object E json then failure ''JSON message must be an object'' else success ())"

definition requireField :: "'j env \<Rightarrow> 'j \<Rightarrow> string \<Rightarrow> Status" where
  "requireField E json field =
     and_then (validateObject E json) (\<lambda>_.
       if \<not> contains E json field
       then failure (''JSON message does not contain required field: '' @ field)
       else success ())"

definition int64_max :: u64 where
  "int64_max = 0x7FFFFFFFFFFFFFFF"

definition getInt64Field :: "'j env \<Rightarrow> 'j \<Rightarrow> string \<Rightarrow> i64 Result" where
  "getInt64Field E json field =
     and_then (requireField E json field) (\<lambda>_.
       let value = at_key E json field in
       if is_number_integer E value then success (get_int64 E value)
       else if is_number_unsigned E value then
         (let unsigned_value = get_uint64 E value in
          if int64_max < unsigned_value
          then failure (''JSON field is too large for int64_t: '' @ field)
          else success unsigned_value)
       else failure (''JSON field must be integer: '' @ field))"

definition getDoubleField :: "'j env \<Rightarrow> 'j \<Rightarrow> string \<Rightarrow> binary64 Result" where
  "getDoubleField E json field =
     and_then (requireField E json field) (\<lambda>_.
       let value = at_key E json field in
       if \<not> is_number E value then failure (''JSON field must be number: '' @ field)
       else success (get_double E value))"

definition getStringField :: "'j env \<Rightarrow> 'j \<Rightarrow> string \<Rightarrow> string Result" where
  "getStringField E json field =
     and_then (requireField E json field) (\<lambda>_.
       let value = at_key E json field in
       if \<not> is_string E value then failure (''JSON field must be string: '' @ field)
       else success (get_string E value))"

subsection \<open>Building messages\<close>

definition MakeHelloMessage :: "'j env \<Rightarrow> string \<Rightarrow> 'j" where
  "MakeHelloMessage E role =
     json_object E
       [(''version'', json_of_int E k_protocol_version),
        (''type'', json_of_string E k_type_hello),
        (''role'', json_of_string E role)]"

definition ToJson_packet :: "'j env \<Rightarrow> AccelPacket \<Rightarrow> 'j" where
  "ToJson_packet E packet =
     json_object E
       [(''version'', json_of_int E k_protocol_version),
        (''type'', json_of_string E k_type_accel),
        (''timestamp'', json_of_int64 E (accel_timestamp packet)),
        (''x'', json_of_double E (accel_x packet)),
        (''y'', json_of_double E (accel_y packet)),
        (''z'', json_of_double E (accel_z packet))]"

definition ToJson_module :: "'j env \<Rightarrow> AccelModule \<Rightarrow> 'j" where
  "ToJson_module E accel_module =
     json_object E
       [(''version'', json_of_int E k_protocol_version),
        (''type'', json_of_string E k_type_module),
        (''timestamp'', json_of_int64 E (module_timestamp accel_module)),
        (''module'', json_of_double E (module_value accel_module))]"

subsection \<open>Parsing and validating\<close>

definition ParseJsonLine :: "'j env \<Rightarrow> string \<Rightarrow> 'j Result" where
  "ParseJsonLine E line =
     (case json_parse E line of
        None \<Rightarrow> failure ''Invalid JSON line''
      | Some json \<Rightarrow> success json)"

definition GetMessageType :: "'j env \<Rightarrow> 'j \<Rightarrow> string Result" where
  "GetMessageType E json = getStringField E json ''type''"

definition ValidateProtocolVersion :: "'j env \<Rightarrow> 'j \<Rightarrow> Status" where
  "ValidateProtocolVersion E json =
     and_then (requireField E json ''version'') (\<lambda>_.
       let version = at_key E json ''version'' in
       if \<not> is_number_integer E version \<and> \<not> is_number_unsigned E version
       then failure ''JSON field version must be integer''
       else
         let receivedVersion =
           (if is_number_integer E version then get_int E version else get_uint E version) in
         if receivedVersion \<noteq> k_protocol_version
         then failure (''Unsupported protocol version: '' @ to_string (sint receivedVersion))
         else success ())"

definition ValidateMessageType :: "'j env \<Rightarrow> 'j \<Rightarrow> string \<Rightarrow> Status" where
  "ValidateMessageType E json expected_type =
     and_then (GetMessageType E json) (\<lambda>actual_type.
       if actual_type \<noteq> expected_type
       then failure (''Unexpected message type. Expected: '' @ expected_type @
              '', actual: '' @ actual_type)
       else success ())"

definition ParseAccelPacket :: "'j env \<Rightarrow> 'j \<Rightarrow> AccelPacket Result" where
  "ParseAccelPacket E json =
     and_then (ValidateProtocolVersion E json) (\<lambda>_.
     and_then (ValidateMessageType E json k_type_accel) (\<lambda>_.
     and_then (getInt64Field E json ''timestamp'') (\<lambda>timestamp.
     and_then (getDoubleField E json ''x'') (\<lambda>x.
     and_then (getDoubleField E json ''y'') (\<lambda>y.
     and_then (getDoubleField E json ''z'') (\<lambda>z.
       success \<lparr>accel_timestamp = timestamp, accel_x = x, accel_y = y, accel_z = z\<rparr>))))))"

definition ParseAccelModule :: "'j env \<Rightarrow> 'j \<Rightarrow> AccelModule Result" where
  "ParseAccelModule E json =
     and_then (ValidateProtocolVersion E json) (\<lambda>_.
     and_then (ValidateMessageType E json k_type_module) (\<lambda>_.
     and_then (getInt64Field E json ''timestamp'') (\<lambda>timestamp.
     and_then (getDoubleField E json ''module'') (\<lambda>module_field.
       success \<lparr>module_timestamp = timestamp, module_value = module_field\<rparr>))))"

definition GetClientRole :: "'j env \<Rightarrow> 'j \<Rightarrow> string Result" where
  "GetClientRole E json =
     and_then (ValidateProtocolVersion E json) (\<lambda>_.
     and_then (ValidateMessageType E json k_type_hello) (\<lambda>_.
     and_then (getStringField E json ''role'') (\<lambda>role.
       if role \<noteq> k_role_A \<and> role \<noteq> k_role_B
       then failure (''Unsupported client role: '' @ role)
       else success role)))"

subsection \<open>The contract of the field readers\<close>

lemma requireField_iff [simp]:
  "requireField E json f = success () \<longleftrightarrow> is_object E json \<and> contains E json f"
  by (simp add: requireField_def validateObject_def)

lemma requireField_present:
  "is_object E json \<Longrightarrow> contains E json f \<Longrightarrow> requireField E json f = success ()"
  by simp

definition not_object_error :: string where
  "not_object_error = ''JSON message must be an object''"

definition missing_error :: "string \<Rightarrow> string" where
  "missing_error f = ''JSON message does not contain required field: '' @ f"

lemma requireField_cases:
  "requireField E json f =
     (if \<not> is_object E json then failure not_object_error
      else if \<not> contains E json f then failure (missing_error f) else success ())"
  by (simp add: requireField_def validateObject_def not_object_error_def missing_error_def)

text \<open>
  Each reader of a typed field reports a value that is no object, a missing field and a
  field of the wrong kind, in this order, and otherwise reads the field.
\<close>

locale field_reader =
  fixes get_field :: "'j env \<Rightarrow> 'j \<Rightarrow> string \<Rightarrow> 'v Result"
    and accepts :: "'j env \<Rightarrow> 'j \<Rightarrow> bool"
    and reads :: "'j env \<Rightarrow> 'j \<Rightarrow> 'v"
    and complaint :: string
  assumes not_object: "\<not> is_object E json \<Longrightarrow> get_field E json f = failure not_object_error"
    and missing: "is_object E json \<Longrightarrow> \<not> contains E json f \<Longrightarrow>
          get_field E json f = failure (missing_error f)"
    and wrong_kind: "number_laws E \<Longrightarrow> is_object E json \<Longrightarrow> contains E json f \<Longrightarrow>
          \<not> accepts E (at_key E json f) \<Longrightarrow> get_field E json f = failure (complaint @ f)"
    and accepted: "is_object E json \<Longrightarrow> contains E json f \<Longrightarrow>
          accepts E (at_key E json f) \<Longrightarrow> get_field E json f = success (reads E (at_key E json f))"
    and accepts_leaf: "same_leaf E a b \<Longrightarrow> accepts E a = accepts E b"
    and reads_leaf: "same_leaf E a b \<Longrightarrow> accepts E a \<Longrightarrow> reads E a = reads E b"
begin

lemma total_description:
  assumes "number_laws E"
  shows "get_field E json f =
     (if \<not> is_object E json then failure not_object_error
      else if \<not> contains E json f then failure (missing_error f)
      else if \<not> accepts E (at_key E json f) then failure (complaint @ f)
      else success (reads E (at_key E json f)))"
  by (simp add: not_object missing wrong_kind [OF assms] accepted)

lemma success_iff:
  assumes "number_laws E"
  shows "get_field E json f = success v \<longleftrightarrow>
     is_object E json \<and> contains E json f \<and> accepts E (at_key E json f) \<and> v = reads E (at_key E json f)"
  by (auto simp: total_description [OF assms])

lemma same_json_cong:
  assumes "number_laws E" and "same_json E a b"
  shows "get_field E b f = get_field E a f"
proof -
  have "is_object E a \<Longrightarrow> contains E a f \<Longrightarrow> same_leaf E (at_key E a f) (at_key E b f)"
    using assms(2) by (simp add: same_json_def)
  moreover have "is_object E b = is_object E a" and "contains E b f = contains E a f"
    using assms(2) by (simp_all add: same_json_def)
  ultimately show ?thesis
    unfolding total_description [OF assms(1)] using accepts_leaf reads_leaf by auto
qed

end

interpretation int64_field: field_reader getInt64Field is_number_integer get_int64
  "''JSON field must be integer: ''"
  by unfold_locales
    (auto simp: getInt64Field_def requireField_cases same_leaf_def Let_def dest: number_lawsD(1))

interpretation double_field: field_reader getDoubleField is_number get_double
  "''JSON field must be number: ''"
  by unfold_locales (auto simp: getDoubleField_def requireField_cases same_leaf_def Let_def)

interpretation string_field: field_reader getStringField is_string get_string
  "''JSON field must be string: ''"
  by unfold_locales (auto simp: getStringField_def requireField_cases same_leaf_def Let_def)

subsection \<open>Headers: protocol version and message type\<close>

definition has_version :: "'j env \<Rightarrow> 'j \<Rightarrow> bool" where
  "has_version E json \<longleftrightarrow>
     is_object E json \<and> contains E json ''version'' \<and>
     is_number_integer E (at_key E json ''version'') \<and>
     (ucast (get_int64 E (at_key E json ''version'')) :: i32) = 1"

definition has_type :: "'j env \<Rightarrow> 'j \<Rightarrow> string \<Rightarrow> bool" where
  "has_type E json ty \<longleftrightarrow>
     is_object E json \<and> contains E json ''type'' \<and> is_string E (at_key E json ''type'') \<and>
     get_string E (at_key E json ''type'') = ty"

definition has_integer :: "'j env \<Rightarrow> 'j \<Rightarrow> string \<Rightarrow> bool" where
  "has_integer E json f \<longleftrightarrow> contains E json f \<and> is_number_integer E (at_key E json f)"

definition has_number :: "'j env \<Rightarrow> 'j \<Rightarrow> string \<Rightarrow> bool" where
  "has_number E json f \<longleftrightarrow> contains E json f \<and> is_number E (at_key E json f)"

lemma GetMessageType_iff [simp]: "GetMessageType E json = success ty \<longleftrightarrow> has_type E json ty"
  by (auto simp: GetMessageType_def getStringField_def has_type_def Let_def)

lemma ValidateMessageType_iff [simp]:
  "ValidateMessageType E json ty = success () \<longleftrightarrow> has_type E json ty"
  by (auto simp: ValidateMessageType_def)

lemma ValidateProtocolVersion_iff:
  assumes "number_laws E"
  shows "ValidateProtocolVersion E json = success () \<longleftrightarrow> has_version E json"
  using number_lawsD(1,3) [OF assms, of "at_key E json ''version''"]
  by (auto simp: ValidateProtocolVersion_def has_version_def k_protocol_version_def Let_def)

lemma has_type_unique: "has_type E json a \<Longrightarrow> has_type E json b \<Longrightarrow> a = b"
  by (simp add: has_type_def)

lemma has_version_same: "number_laws E \<Longrightarrow> same_json E a b \<Longrightarrow> has_version E b = has_version E a"
  by (auto simp: has_version_def same_json_def same_leaf_def)

lemma has_type_same: "same_json E a b \<Longrightarrow> has_type E b ty = has_type E a ty"
  by (auto simp: has_type_def same_json_def same_leaf_def)

lemma built_header:
  assumes "builder_laws E" and "distinct (map fst kvs)"
    and "map_of kvs ''version'' = Some (json_of_int E 1)"
    and "map_of kvs ''type'' = Some (json_of_string E ty)"
  shows "ValidateProtocolVersion E (json_object E kvs) = success ()"
    and "has_type E (json_object E kvs) ty"
    and "ValidateMessageType E (json_object E kvs) ty = success ()"
  using assms by (simp_all add: ValidateProtocolVersion_def requireField_present has_type_def
      json_simps k_protocol_version_def)

lemma ValidateProtocolVersion_same:
  assumes "number_laws E" and "same_json E a b"
  shows "ValidateProtocolVersion E b = ValidateProtocolVersion E a"
proof -
  have leaf: "is_object E a \<Longrightarrow> contains E a ''version'' \<Longrightarrow>
      same_leaf E (at_key E a ''version'') (at_key E b ''version'')"
    using assms(2) by (simp add: same_json_def)
  have obj: "is_object E b = is_object E a" "contains E b ''version'' = contains E a ''version''"
    using assms(2) by (simp_all add: same_json_def)
  note laws = number_lawsD(1,3) [OF assms(1)]
  show ?thesis
  proof (cases "is_object E a \<and> contains E a ''version''")
    case True
    with leaf have "same_leaf E (at_key E a ''version'') (at_key E b ''version'')" by simp
    with True obj laws(2) show ?thesis
      by (auto simp: ValidateProtocolVersion_def requireField_cases Let_def same_leaf_def
          dest: laws(1))
  next
    case False
    with obj show ?thesis by (auto simp: ValidateProtocolVersion_def requireField_cases)
  qed
qed

lemma GetMessageType_same:
  "number_laws E \<Longrightarrow> same_json E a b \<Longrightarrow> GetMessageType E b = GetMessageType E a"
  unfolding GetMessageType_def by (rule string_field.same_json_cong)

lemma ValidateMessageType_same:
  "number_laws E \<Longrightarrow> same_json E a b \<Longrightarrow> ValidateMessageType E b ty = ValidateMessageType E a ty"
  by (simp add: ValidateMessageType_def GetMessageType_same)

lemmas same_json_congs = ValidateProtocolVersion_same ValidateMessageType_same GetMessageType_same
  int64_field.same_json_cong double_field.same_json_cong string_field.same_json_cong

lemmas parser_defs = ParseAccelPacket_def ParseAccelModule_def GetClientRole_def

lemma parsers_same:
  assumes "number_laws E" and "same_json E a b"
  shows "ParseAccelPacket E b = ParseAccelPacket E a"
    and "ParseAccelModule E b = ParseAccelModule E a"
    and "GetClientRole E b = GetClientRole E a"
  by (simp_all add: parser_defs same_json_congs [OF assms])

lemma built_fields:
  assumes "builder_laws E" and "distinct (map fst kvs)"
  shows "map_of kvs f = Some (json_of_int64 E w) \<Longrightarrow> getInt64Field E (json_object E kvs) f = success w"
    and "map_of kvs f = Some (json_of_double E d) \<Longrightarrow> getDoubleField E (json_object E kvs) f = success d"
    and "map_of kvs f = Some (json_of_string E s) \<Longrightarrow> getStringField E (json_object E kvs) f = success s"
  using assms
  by (simp_all add: getInt64Field_def getDoubleField_def getStringField_def requireField_present
      json_simps)

subsection \<open>Messages: built values parse back\<close>

lemma ParseAccelPacket_built: "builder_laws E \<Longrightarrow> ParseAccelPacket E (ToJson_packet E p) = success p"
  unfolding ParseAccelPacket_def ToJson_packet_def k_protocol_version_def
  by (simp add: built_header built_fields)

lemma ParseAccelModule_built: "builder_laws E \<Longrightarrow> ParseAccelModule E (ToJson_module E m) = success m"
  unfolding ParseAccelModule_def ToJson_module_def k_protocol_version_def
  by (simp add: built_header built_fields)

lemma GetClientRole_built:
  "builder_laws E \<Longrightarrow>
   GetClientRole E (MakeHelloMessage E role) =
     (if role = k_role_A \<or> role = k_role_B then success role
      else failure (''Unsupported client role: '' @ role))"
  unfolding GetClientRole_def MakeHelloMessage_def k_protocol_version_def
  by (simp add: built_header built_fields)

lemma built_types:
  assumes "builder_laws E"
  shows "has_type E (MakeHelloMessage E role) k_type_hello"
    and "has_type E (ToJson_packet E p) k_type_accel"
    and "has_type E (ToJson_module E m) k_type_module"
  using assms unfolding MakeHelloMessage_def ToJson_packet_def ToJson_module_def k_protocol_version_def
  by (simp_all add: built_header)

lemma printable_simps [simp]:
  "printable []" "printable (c # s) \<longleftrightarrow> 32 \<le> (of_char c :: nat) \<and> (of_char c :: nat) < 127 \<and> printable s"
  by (auto simp: printable_def)

lemma plain_leafI:
  "plain_leaf E (json_of_int E w)" "plain_leaf E (json_of_int64 E l)"
  "is_finite64 d \<Longrightarrow> valid64 d \<Longrightarrow> plain_leaf E (json_of_double E d)"
  "printable s \<Longrightarrow> plain_leaf E (json_of_string E s)"
  by (auto simp: plain_leaf_def)

definition sendable_packet :: "AccelPacket \<Rightarrow> bool" where
  "sendable_packet p \<longleftrightarrow>
     is_finite64 (accel_x p) \<and> valid64 (accel_x p) \<and> is_finite64 (accel_y p) \<and> valid64 (accel_y p) \<and>
     is_finite64 (accel_z p) \<and> valid64 (accel_z p)"

definition sendable_module :: "AccelModule \<Rightarrow> bool" where
  "sendable_module m \<longleftrightarrow> is_finite64 (module_value m) \<and> valid64 (module_value m)"

definition client_role :: "string \<Rightarrow> bool" where
  "client_role role \<longleftrightarrow> role = k_role_A \<or> role = k_role_B"

text \<open>
  A message kind: what the builder writes, the parser of the same kind reads back, and the
  parser accepts nothing without the kind's header.
\<close>

locale message_codec =
  fixes to_json :: "'j env \<Rightarrow> 'm \<Rightarrow> 'j"
    and parse :: "'j env \<Rightarrow> 'j \<Rightarrow> 'm Result"
    and kind :: string
    and sendable :: "'m \<Rightarrow> bool"
  assumes built: "builder_laws E \<Longrightarrow> sendable m \<Longrightarrow> parse E (to_json E m) = success m"
    and built_type: "builder_laws E \<Longrightarrow> has_type E (to_json E m) kind"
    and header: "number_laws E \<Longrightarrow> parse E json = success m \<Longrightarrow>
          has_version E json \<and> has_type E json kind"
    and same: "number_laws E \<Longrightarrow> same_json E a b \<Longrightarrow> parse E b = parse E a"
    and plain: "sendable m \<Longrightarrow> \<exists>kvs. to_json E m = json_object E kvs \<and> plain_fields E kvs"
begin

lemma inject: 
  assumes "builder_laws E" "sendable m" "sendable n" "to_json E m = to_json E n"
  shows "m = n"
  using built [OF assms(1,2)] built [OF assms(1,3)] assms(4) by (metis Result.inject(1))

lemma line_shape:
  assumes "text_laws E" and "sendable m"
  shows "json_dump E (to_json E m) \<noteq> []"
    and "list_all (\<lambda>c. 32 \<le> (of_char c :: nat)) (json_dump E (to_json E m))"
proof -
  obtain kvs where kvs: "to_json E m = json_object E kvs" "plain_fields E kvs"
    using plain [OF assms(2)] by blast
  show "json_dump E (to_json E m) \<noteq> []"
    and "list_all (\<lambda>c. 32 \<le> (of_char c :: nat)) (json_dump E (to_json E m))"
    unfolding kvs(1) using text_lawsD [OF assms(1) kvs(2)] by blast+
qed

lemma text_roundtrip:
  assumes "builder_laws E" "number_laws E" "text_laws E" "sendable m"
  shows "\<exists>json. json_parse E (json_dump E (to_json E m)) = Some json \<and>
           has_type E json kind \<and> parse E json = success m"
proof -
  obtain json where p: "json_parse E (json_dump E (to_json E m)) = Some json"
    and s: "same_json E (to_json E m) json"
    using assms(3) plain [OF assms(4)] text_lawsD(3) [OF assms(3)] by metis
  have "parse E json = success m"
    using same [OF assms(2) s] built [OF assms(1,4)] by simp
  moreover have "has_type E json kind"
    using has_type_same [OF s] built_type [OF assms(1)] by simp
  ultimately show ?thesis using p by blast
qed

end

lemma parsed_headers:
  assumes "number_laws E"
  shows "ParseAccelPacket E json = success p \<Longrightarrow> has_version E json \<and> has_type E json k_type_accel"
    and "ParseAccelModule E json = success m \<Longrightarrow> has_version E json \<and> has_type E json k_type_module"
    and "GetClientRole E json = success r \<Longrightarrow> has_version E json \<and> has_type E json k_type_hello"
  by (auto simp: parser_defs ValidateProtocolVersion_iff [OF assms])

lemma plain_messages:
  "sendable_packet p \<Longrightarrow> \<exists>kvs. ToJson_packet E p = json_object E kvs \<and> plain_fields E kvs"
  "sendable_module m \<Longrightarrow> \<exists>kvs. ToJson_module E m = json_object E kvs \<and> plain_fields E kvs"
  "client_role r \<Longrightarrow> \<exists>kvs. MakeHelloMessage E r = json_object E kvs \<and> plain_fields E kvs"
  unfolding ToJson_packet_def ToJson_module_def MakeHelloMessage_def
  by ((rule exI, rule conjI, rule refl),
      auto simp: plain_fields_def plain_leafI sendable_packet_def sendable_module_def client_role_def
        protocol_constants)+

interpretation packet_codec: message_codec ToJson_packet ParseAccelPacket k_type_accel sendable_packet
  by unfold_locales (auto simp: ParseAccelPacket_built built_types parsers_same
      dest: parsed_headers intro: plain_messages)

interpretation module_codec: message_codec ToJson_module ParseAccelModule k_type_module sendable_module
  by unfold_locales (auto simp: ParseAccelModule_built built_types parsers_same
      dest: parsed_headers intro: plain_messages)

interpretation hello_codec: message_codec MakeHelloMessage GetClientRole k_type_hello client_role
  by unfold_locales (auto simp: GetClientRole_built built_types parsers_same client_role_def
      dest: parsed_headers intro: plain_messages [unfolded client_role_def])

subsection \<open>Properties of the protocol\<close>

definition sample_object :: "i64 \<Rightarrow> string \<Rightarrow> i64 \<Rightarrow> jval" where
  "sample_object version ty timestamp =
     JObj [(''type'', JStr ty), (''version'', JUint version), (''z'', JUint 3), (''y'', JUint 2),
       (''x'', JUint 1), (''module'', JFloat (Finite False 0 (-1074))), (''timestamp'', JUint timestamp)]"

lemmas sample_eval = sample_object_def jval_kinds has_version_def has_type_def has_integer_def
  has_number_def protocol_constants

text \<open>
  C29. A JSON value parses as an accelerometer packet exactly when it is an object whose
  version is an integer with low 32 bits 1, whose type is the string "accel", and whose
  timestamp is an integer and x, y and z are numbers; the packet then holds the fields read.
\<close>

theorem ParseAccelPacket_iff:
  assumes "number_laws E"
  shows "ParseAccelPacket E json = success p \<longleftrightarrow>
     has_version E json \<and> has_type E json k_type_accel \<and> has_integer E json ''timestamp'' \<and>
     has_number E json ''x'' \<and> has_number E json ''y'' \<and> has_number E json ''z'' \<and>
     p = \<lparr>accel_timestamp = get_int64 E (at_key E json ''timestamp''),
          accel_x = get_double E (at_key E json ''x''),
          accel_y = get_double E (at_key E json ''y''),
          accel_z = get_double E (at_key E json ''z'')\<rparr>"
  unfolding ParseAccelPacket_def and_then_success_iff ValidateMessageType_iff
    int64_field.success_iff [OF assms] double_field.success_iff [OF assms] has_integer_def has_number_def
  using has_version_def [of E json] ValidateProtocolVersion_iff [OF assms, of json] by auto

theorem ParseAccelPacket_iff_witness:
  "ParseAccelPacket jenv (sample_object 1 ''accel'' 7) =
     success \<lparr>accel_timestamp = 7, accel_x = literal64 1 1, accel_y = literal64 2 1, accel_z = literal64 3 1\<rparr>"
  unfolding ParseAccelPacket_iff [OF jenv_number_laws]
  by (simp add: sample_eval) (simp add: eval64)

text \<open>
  C32. A JSON value parses as a module message exactly when it is an object whose version is an
  integer with low 32 bits 1, whose type is the string "module", and which has an integer
  timestamp and a number in the field module; the module then holds the fields read.
\<close>

theorem ParseAccelModule_iff:
  assumes "number_laws E"
  shows "ParseAccelModule E json = success m \<longleftrightarrow>
     has_version E json \<and> has_type E json k_type_module \<and> has_integer E json ''timestamp'' \<and>
     has_number E json ''module'' \<and>
     m = \<lparr>module_timestamp = get_int64 E (at_key E json ''timestamp''),
          module_value = get_double E (at_key E json ''module'')\<rparr>"
  unfolding ParseAccelModule_def and_then_success_iff ValidateMessageType_iff
    int64_field.success_iff [OF assms] double_field.success_iff [OF assms] has_integer_def has_number_def
  using has_version_def [of E json] ValidateProtocolVersion_iff [OF assms, of json] by auto

theorem ParseAccelModule_iff_witness:
  "ParseAccelModule jenv (sample_object 1 ''module'' 7) =
     success \<lparr>module_timestamp = 7, module_value = Finite False 0 (-1074)\<rparr>"
  unfolding ParseAccelModule_iff [OF jenv_number_laws] by (simp add: sample_eval)

text \<open>
  C19. Through the text of a line and back: the dump of a packet with finite axes is one non-empty
  line without control characters, and that line parses, has type "accel" and parses as the
  same packet.
\<close>

theorem packet_line_roundtrip:
  assumes "builder_laws E" "number_laws E" "text_laws E" and "sendable_packet p"
  shows "json_dump E (ToJson_packet E p) \<noteq> [] \<and>
         list_all (\<lambda>c. 32 \<le> (of_char c :: nat)) (json_dump E (ToJson_packet E p)) \<and>
         (\<exists>json. ParseJsonLine E (json_dump E (ToJson_packet E p)) = success json \<and>
            GetMessageType E json = success k_type_accel \<and> ParseAccelPacket E json = success p)"
  using packet_codec.text_roundtrip [OF assms] packet_codec.line_shape [OF assms(3,4)]
  by (auto simp: ParseJsonLine_def)

lemma sample_sendable: "sendable_packet (sample_packet t 5000)" "sendable_packet (sample_packet t 5001)"
  unfolding sendable_packet_def sample_packet_def AccelPacket.simps sample_axes by simp_all

theorem packet_line_roundtrip_witness:
  "\<exists>json. ParseJsonLine jenv (json_dump jenv (ToJson_packet jenv (sample_packet 7 5000))) = success json \<and>
     GetMessageType jenv json = success k_type_accel \<and>
     ParseAccelPacket jenv json = success (sample_packet 7 5000)"
  using packet_line_roundtrip [OF jenv_builder_laws jenv_number_laws jenv_text_laws sample_sendable(1)]
  by blast

text \<open>
  C20. The dump of a module with a finite value is one non-empty line without control characters,
  and that line parses, has type "module" and parses as the same module.
\<close>

theorem module_line_roundtrip:
  assumes "builder_laws E" "number_laws E" "text_laws E" and "sendable_module m"
  shows "json_dump E (ToJson_module E m) \<noteq> [] \<and>
         list_all (\<lambda>c. 32 \<le> (of_char c :: nat)) (json_dump E (ToJson_module E m)) \<and>
         (\<exists>json. ParseJsonLine E (json_dump E (ToJson_module E m)) = success json \<and>
            GetMessageType E json = success k_type_module \<and> ParseAccelModule E json = success m)"
  using module_codec.text_roundtrip [OF assms] module_codec.line_shape [OF assms(3,4)]
  by (auto simp: ParseJsonLine_def)

definition sample_module :: AccelModule where
  "sample_module = \<lparr>module_timestamp = 7, module_value = Finite False 5629499534213120 (-50)\<rparr>"

lemma sample_module_sendable: "sendable_module sample_module"
  by (simp add: sendable_module_def sample_module_def)

theorem module_line_roundtrip_witness:
  "\<exists>json. ParseJsonLine jenv (json_dump jenv (ToJson_module jenv sample_module)) = success json \<and>
     GetMessageType jenv json = success k_type_module \<and> ParseAccelModule jenv json = success sample_module"
  using module_line_roundtrip [OF jenv_builder_laws jenv_number_laws jenv_text_laws sample_module_sendable]
  by blast

text \<open>
  C30. A hello message is accepted with the role it was built for when that is "A" or "B", and
  any other role is refused by name.
\<close>

theorem hello_roundtrip:
  assumes "builder_laws E"
  shows "GetClientRole E (MakeHelloMessage E role) =
     (if role = k_role_A \<or> role = k_role_B then success role
      else failure (''Unsupported client role: '' @ role))"
  by (rule GetClientRole_built [OF assms])

theorem hello_roundtrip_witness:
  "GetClientRole jenv (MakeHelloMessage jenv ''B'') = success ''B'' \<and>
   GetClientRole jenv (MakeHelloMessage jenv ''C'') = failure ''Unsupported client role: C''"
  using hello_roundtrip [OF jenv_builder_laws, of "''B''"] hello_roundtrip [OF jenv_builder_laws, of "''C''"]
  by (simp add: protocol_constants)

text \<open>
  C31. No JSON value is accepted by two of the three parsers: the handlers' dispatch on the
  message type never hides a message of another kind.
\<close>

theorem message_kinds_exclusive:
  assumes "number_laws E"
  shows "\<not> (ok (ParseAccelPacket E json) \<and> ok (ParseAccelModule E json)) \<and>
         \<not> (ok (ParseAccelPacket E json) \<and> ok (GetClientRole E json)) \<and>
         \<not> (ok (ParseAccelModule E json) \<and> ok (GetClientRole E json))"
  using parsed_headers [OF assms, of json] has_type_unique [of E json]
  by (cases "ParseAccelPacket E json"; cases "ParseAccelModule E json"; cases "GetClientRole E json")
    (auto simp: protocol_constants)

theorem message_kinds_exclusive_witness:
  "ok (ParseAccelPacket jenv (sample_object 1 ''accel'' 7)) \<and>
   \<not> ok (ParseAccelModule jenv (sample_object 1 ''accel'' 7))"
proof -
  have "ok (ParseAccelPacket jenv (sample_object 1 ''accel'' 7))"
    by (simp add: ParseAccelPacket_def ValidateProtocolVersion_def getInt64Field_def getDoubleField_def
        ValidateMessageType_def GetMessageType_def getStringField_def requireField_cases sample_eval)
  then show ?thesis
    using message_kinds_exclusive [OF jenv_number_laws, of "sample_object 1 ''accel'' 7"] by blast
qed

text \<open>
  C33. The version check reads only the low 32 bits of the version: any integer that is 1
  modulo \<open>2^32\<close> passes for protocol version 1, the others are refused.
\<close>

theorem version_check_low_bits:
  assumes "number_laws E" and "is_object E json" and "contains E json ''version''"
    and "is_number_integer E (at_key E json ''version'')"
  shows "ValidateProtocolVersion E json = success () \<longleftrightarrow>
     unat (get_int64 E (at_key E json ''version'')) mod 2 ^ 32 = 1"
proof -
  have "(ucast (get_int64 E (at_key E json ''version'')) :: i32) = 1 \<longleftrightarrow>
      unat (ucast (get_int64 E (at_key E json ''version'')) :: i32) = unat (1 :: i32)"
    by (rule word_unat_eq_iff)
  then show ?thesis
    using assms(2-4) by (simp add: ValidateProtocolVersion_iff [OF assms(1)] has_version_def
        unsigned_ucast_eq take_bit_eq_mod)
qed

theorem version_check_low_bits_witness:
  "ValidateProtocolVersion jenv (sample_object 4294967297 ''accel'' 7) = success () \<and>
   ValidateProtocolVersion jenv (sample_object 2 ''accel'' 7) \<noteq> success ()"
  using version_check_low_bits [OF jenv_number_laws, of "sample_object 4294967297 ''accel'' 7"]
    version_check_low_bits [OF jenv_number_laws, of "sample_object 2 ''accel'' 7"]
  by (simp add: sample_eval)

text \<open>
  C34. An integer field above \<open>INT64_MAX\<close> is not refused: the branch that reports "too large"
  is never reached, and such a timestamp is read as a negative number.
\<close>

theorem oversized_integer_wraps:
  assumes "number_laws E" and "is_object E json" and "contains E json f"
    and "is_number_unsigned E (at_key E json f)" and "int64_max < get_uint64 E (at_key E json f)"
  shows "\<exists>w. getInt64Field E json f = success w \<and> sint w < 0"
proof -
  define u where "u = get_uint64 E (at_key E json f)"
  have "getInt64Field E json f = success u"
    using number_lawsD(1,4) [OF assms(1) assms(4)] assms(2,3)
    by (simp add: int64_field.success_iff [OF assms(1)] u_def)
  moreover have "sint u < 0"
  proof (rule ccontr)
    assume "\<not> sint u < 0"
    then have "nat (sint u) = unat u" by (simp add: nat_sint_nonneg)
    moreover have "nat (sint u) < nat (2 ^ 63)" using sint_lt [of u] by (intro nat_mono_iff [THEN iffD2]) simp_all
    ultimately have "unat u < 2 ^ 63" by simp
    then show False using assms(5) by (simp add: u_def int64_max_def word_less_nat_alt)
  qed
  ultimately show ?thesis by blast
qed

theorem oversized_integer_wraps_witness:
  "\<exists>w. getInt64Field jenv (sample_object 1 ''accel'' 0x8000000000000000) ''timestamp'' = success w \<and> sint w < 0"
  by (rule oversized_integer_wraps [OF jenv_number_laws]) (simp_all add: sample_eval int64_max_def)

end
