(* ===== verification/Framing.thy ===== *)
theory Framing
  imports Prelude "HOL-Library.Sublist"
begin

text \<open>
  Newline framing, as both ends of every connection do it: a writer ends each message with a
  newline, a reader waits until its buffer holds one (\<open>read_until\<close>), takes the line off with
  \<open>std::getline\<close> and drops a trailing carriage return
  (\<open>src/common/tcp_client.cpp\<close>, \<open>src/server/client_session.cpp\<close>).
\<close>

subsection \<open>Reading a line\<close>

text \<open>\<open>std::getline(input, line)\<close> on the bytes of a stream buffer: the line and what is left.\<close>

definition getline :: "string \<Rightarrow> string \<times> string" where
  "getline buf = (takeWhile (\<lambda>c. c \<noteq> newline) buf, tl (dropWhile (\<lambda>c. c \<noteq> newline) buf))"

definition strip_cr :: "string \<Rightarrow> string" where
  "strip_cr line = (if line \<noteq> [] \<and> last line = carriage_return then butlast line else line)"

definition take_line :: "string \<Rightarrow> (string \<times> string) option" where
  "take_line buf =
     (if newline \<in> set buf
      then let (line, rest) = getline buf in Some (strip_cr line, rest)
      else None)"

definition line_safe :: "string \<Rightarrow> bool" where
  "line_safe line \<longleftrightarrow> newline \<notin> set line \<and> (line = [] \<or> last line \<noteq> carriage_return)"

lemma getline_append: "newline \<notin> set l \<Longrightarrow> getline (l @ newline # rest) = (l, rest)"
  by (simp add: getline_def takeWhile_append dropWhile_append)

lemma strip_cr_safe: "line_safe l \<Longrightarrow> strip_cr l = l"
  by (auto simp: line_safe_def strip_cr_def)

lemma line_safe_visible: "list_all (\<lambda>c. 32 \<le> (of_char c :: nat)) l \<Longrightarrow> line_safe l"
  by (auto simp: line_safe_def list_all_iff dest!: last_in_set)

lemma split_at_newline:
  assumes "newline \<in> set buf"
  obtains l rest where "buf = l @ newline # rest" and "newline \<notin> set l"
  using split_list_first [OF assms] by blast

lemma take_line_none: "newline \<notin> set buf \<Longrightarrow> take_line buf = None"
  by (simp add: take_line_def)

lemma take_line_first: "newline \<notin> set l \<Longrightarrow> take_line (l @ newline # rest) = Some (strip_cr l, rest)"
  by (simp add: take_line_def getline_append)

lemma take_line_shorter: "take_line buf = Some (l, rest) \<Longrightarrow> length rest < length buf"
proof (cases "newline \<in> set buf")
  case True
  then obtain l' rest' where "buf = l' @ newline # rest'" "newline \<notin> set l'"
    by (rule split_at_newline)
  then show "take_line buf = Some (l, rest) \<Longrightarrow> length rest < length buf"
    by (auto simp: take_line_first)
qed (simp add: take_line_none)

subsection \<open>Reading all the lines of a stream\<close>

text \<open>
  Taking lines until the buffer holds none, and doing so after every chunk the socket
  delivers. The lines obtained do not depend on how the stream was cut.
\<close>

function drain :: "string \<Rightarrow> string list \<times> string" where
  "drain buf =
     (case take_line buf of
        None \<Rightarrow> ([], buf)
      | Some (l, rest) \<Rightarrow> let (ls, r) = drain rest in (l # ls, r))"
  by pat_completeness auto
termination
  by (relation "measure length") (auto dest: take_line_shorter)

declare drain.simps [simp del]

fun feed :: "string \<Rightarrow> string list \<Rightarrow> string list \<times> string" where
  "feed buf [] = ([], buf)"
| "feed buf (chunk # chunks) =
     (let (ls, r) = drain (buf @ chunk); (ls', r') = feed r chunks in (ls @ ls', r'))"

lemma drain_none: "newline \<notin> set buf \<Longrightarrow> drain buf = ([], buf)"
  by (subst drain.simps) (simp add: take_line_none)

lemma drain_line:
  "newline \<notin> set l \<Longrightarrow>
   drain (l @ newline # rest) = (let (ls, r) = drain rest in (strip_cr l # ls, r))"
  by (subst drain.simps) (simp add: take_line_first)

lemma drain_append:
  "drain (a @ b) = (let (ls, r) = drain a; (ls', r') = drain (r @ b) in (ls @ ls', r'))"
proof (induction a rule: length_induct)
  case (1 a)
  show ?case
  proof (cases "newline \<in> set a")
    case True
    then obtain l rest where a: "a = l @ newline # rest" "newline \<notin> set l"
      by (rule split_at_newline)
    have "drain (rest @ b) = (let (ls, r) = drain rest; (ls', r') = drain (r @ b) in (ls @ ls', r'))"
      using 1 a(1) by simp
    then show ?thesis
      by (simp add: a drain_line split: prod.splits)
  next
    case False
    then show ?thesis by (simp add: drain_none split: prod.splits)
  qed
qed

lemma drain_rest: "drain buf = (ls, r) \<Longrightarrow> drain r = ([], r)"
  using drain_append [of buf "[]"] by (auto split: prod.splits)

lemma feed_drain: "drain buf = ([], buf) \<Longrightarrow> feed buf chunks = drain (buf @ concat chunks)"
proof (induction chunks arbitrary: buf)
  case Nil
  then show ?case by simp
next
  case (Cons c cs)
  obtain ls r where d: "drain (buf @ c) = (ls, r)" by fastforce
  then have "feed r cs = drain (r @ concat cs)" by (intro Cons.IH drain_rest)
  then show ?case
    using drain_append [of "buf @ c" "concat cs"] d by (simp split: prod.splits)
qed

text \<open>The lines obtained by one \<open>getline\<close> after each chunk.\<close>

fun lines_of :: "string \<Rightarrow> string list \<Rightarrow> string list" where
  "lines_of buf [] = []"
| "lines_of buf (chunk # chunks) =
     (let (l, rest) = getline (buf @ chunk) in strip_cr l # lines_of rest chunks)"

subsection \<open>The contract of a line writer\<close>

text \<open>
  Both writers end a line with exactly one newline. Whatever chunks the lines of such a
  writer arrive in, the reader obtains exactly these lines, in order, with nothing left over.
\<close>

locale line_writer =
  fixes frame :: "string \<Rightarrow> string"
  assumes frame_line: "newline \<notin> set l \<Longrightarrow> frame l = l @ [newline]"
begin

lemma drain_frames:
  "\<forall>l \<in> set ls. line_safe l \<Longrightarrow> drain (concat (map frame ls)) = (ls, [])"
proof (induction ls)
  case Nil
  then show ?case by (simp add: drain_none)
next
  case (Cons l ls)
  then have "line_safe l" by simp
  then have "newline \<notin> set l" by (simp add: line_safe_def)
  then show ?case using Cons by (simp add: frame_line drain_line strip_cr_safe)
qed

lemma feed_frames:
  assumes "\<forall>l \<in> set ls. line_safe l" and "concat chunks = concat (map frame ls)"
  shows "feed [] chunks = (ls, [])"
  using feed_drain [of "[]" chunks] drain_frames [OF assms(1)] assms(2) by (simp add: drain_none)

lemma feed_frames_partial:
  assumes "\<forall>l \<in> set ls. line_safe l" and "concat chunks = concat (map frame ls) @ t"
    and "newline \<notin> set t"
  shows "feed [] chunks = (ls, t)"
proof -
  have "feed [] chunks = drain (concat (map frame ls) @ t)"
    using feed_drain [of "[]" chunks] assms(2) by (simp add: drain_none)
  also have "\<dots> = (ls, t)"
    unfolding drain_append [of "concat (map frame ls)" t] drain_frames [OF assms(1)]
    using assms(3) by (simp add: drain_none)
  finally show ?thesis .
qed

end

subsection \<open>Reading part of a stream\<close>

text \<open>Every read completes with a newline in the buffer, as \<open>read_until\<close> guarantees.\<close>

fun complete_reads :: "string \<Rightarrow> string list \<Rightarrow> bool" where
  "complete_reads buf [] \<longleftrightarrow> True"
| "complete_reads buf (chunk # chunks) \<longleftrightarrow>
     newline \<in> set (buf @ chunk) \<and> complete_reads (snd (getline (buf @ chunk))) chunks"

lemma length_lines_of [simp]: "length (lines_of buf chunks) = length chunks"
  by (induction chunks arbitrary: buf) (simp_all split: prod.splits)

lemma drain_getline:
  assumes "newline \<in> set buf"
  shows "drain buf = (let (ls, r) = drain (snd (getline buf)) in (strip_cr (fst (getline buf)) # ls, r))"
proof -
  obtain l rest where "buf = l @ newline # rest" "newline \<notin> set l"
    using split_at_newline [OF assms] by blast
  then show ?thesis by (simp add: getline_append drain_line)
qed

lemma lines_of_drain:
  "complete_reads buf chunks \<Longrightarrow> \<exists>more. fst (drain (buf @ concat chunks)) = lines_of buf chunks @ more"
proof (induction chunks arbitrary: buf)
  case (Cons chunk chunks)
  obtain l rest where g: "getline (buf @ chunk) = (l, rest)" by fastforce
  have nl: "newline \<in> set (buf @ chunk)" and c: "complete_reads rest chunks" using Cons.prems by (simp_all add: g)
  obtain ls r where d: "drain (buf @ chunk) = (strip_cr l # ls, r)" "drain rest = (ls, r)"
    using drain_getline [OF nl] by (cases "drain rest") (simp add: g)
  obtain more where "fst (drain (rest @ concat chunks)) = lines_of rest chunks @ more" using Cons.IH [OF c] by blast
  then show ?case
    using drain_append [of "buf @ chunk" "concat chunks"] drain_append [of rest "concat chunks"] d
    by (auto simp: g split: prod.splits)
qed simp

lemma lines_of_append:
  "lines_of buf (cs @ ds) = lines_of buf cs @ lines_of (fold (\<lambda>chunk buf. snd (getline (buf @ chunk))) cs buf) ds"
  by (induction cs arbitrary: buf) (simp_all split: prod.splits)

lemma complete_reads_append:
  "complete_reads buf (cs @ ds) \<longleftrightarrow>
     complete_reads buf cs \<and> complete_reads (fold (\<lambda>chunk buf. snd (getline (buf @ chunk))) cs buf) ds"
  by (induction cs arbitrary: buf) simp_all

text \<open>Of a stream of framed lines, of which some part has arrived, the reads return the first lines.\<close>

context line_writer
begin

lemma drain_part:
  assumes "\<forall>l \<in> set ls. line_safe l" and "prefix bytes (concat (map frame ls))"
  shows "\<exists>n. fst (drain bytes) = take n ls"
proof -
  obtain t where "concat (map frame ls) = bytes @ t" using assms(2) by (auto simp: prefix_def)
  then have "ls = fst (drain bytes) @ fst (drain (snd (drain bytes) @ t))"
    using drain_frames [OF assms(1)] drain_append [of bytes t] by (simp split: prod.splits)
  then show ?thesis by (intro exI [of _ "length (fst (drain bytes))"]) (metis append_eq_conv_conj)
qed

lemma lines_of_part:
  assumes "\<forall>l \<in> set ls. line_safe l" and "complete_reads [] chunks" and "prefix (concat chunks) (concat (map frame ls))"
  shows "lines_of [] chunks = take (length chunks) ls"
proof -
  obtain more where m: "fst (drain (concat chunks)) = lines_of [] chunks @ more"
    using lines_of_drain [OF assms(2)] by auto
  obtain n where n: "fst (drain (concat chunks)) = take n ls" using drain_part [OF assms(1,3)] by blast
  have eq: "take n ls = lines_of [] chunks @ more" using m n by simp
  have "length (take n ls) = length chunks + length more" unfolding eq by simp
  then have "length chunks \<le> n" by (simp add: min_def split: if_splits)
  moreover have "lines_of [] chunks = take (length chunks) (take n ls)" unfolding eq by simp
  ultimately show ?thesis by (simp add: min_def)
qed

end

end
