(* ===== verification/ServerState.thy ===== *)
theory ServerState
  imports Prelude
begin

text \<open>
  \<open>src/server/server_state.cpp\<close>: the registry of the two nodes. A session object is known by
  its address; the registry holds weak pointers, so every operation takes the predicate
  \<open>alive\<close> that says which objects still exist, and \<open>lock\<close> of a weak pointer to a destroyed
  object gives nothing. Each operation runs under the registry's mutex, so it is one step.
\<close>

type_synonym addr = nat

record ServerState =
  node_a :: "addr option"
  node_b :: "addr option"

definition empty_registry :: ServerState where
  "empty_registry = \<lparr>node_a = None, node_b = None\<rparr>"

definition lock :: "(addr \<Rightarrow> bool) \<Rightarrow> addr option \<Rightarrow> addr option" where
  "lock alive p = (case p of None \<Rightarrow> None | Some a \<Rightarrow> if alive a then Some a else None)"

definition SetNodeA :: "(addr \<Rightarrow> bool) \<Rightarrow> addr \<Rightarrow> ServerState \<Rightarrow> bool \<times> ServerState" where
  "SetNodeA alive session st =
     (let current_node = lock alive (node_a st) in
      if current_node \<noteq> None \<and> current_node \<noteq> Some session then (False, st)
      else (True, st\<lparr>node_a := Some session\<rparr>))"

definition SetNodeB :: "(addr \<Rightarrow> bool) \<Rightarrow> addr \<Rightarrow> ServerState \<Rightarrow> bool \<times> ServerState" where
  "SetNodeB alive session st =
     (let current_node = lock alive (node_b st) in
      if current_node \<noteq> None \<and> current_node \<noteq> Some session then (False, st)
      else (True, st\<lparr>node_b := Some session\<rparr>))"

definition GetNodeA :: "(addr \<Rightarrow> bool) \<Rightarrow> ServerState \<Rightarrow> addr option" where
  "GetNodeA alive st = lock alive (node_a st)"

definition GetNodeB :: "(addr \<Rightarrow> bool) \<Rightarrow> ServerState \<Rightarrow> addr option" where
  "GetNodeB alive st = lock alive (node_b st)"

definition HasNodeA :: "(addr \<Rightarrow> bool) \<Rightarrow> ServerState \<Rightarrow> bool" where
  "HasNodeA alive st \<longleftrightarrow> lock alive (node_a st) \<noteq> None"

definition HasNodeB :: "(addr \<Rightarrow> bool) \<Rightarrow> ServerState \<Rightarrow> bool" where
  "HasNodeB alive st \<longleftrightarrow> lock alive (node_b st) \<noteq> None"

definition RemoveSession :: "(addr \<Rightarrow> bool) \<Rightarrow> addr \<Rightarrow> ServerState \<Rightarrow> ServerState" where
  "RemoveSession alive session st =
     (let st1 = (if lock alive (node_a st) = Some session then st\<lparr>node_a := None\<rparr> else st)
      in if lock alive (node_b st1) = Some session then st1\<lparr>node_b := None\<rparr> else st1)"

lemma lock_Some_iff [simp]: "lock alive p = Some a \<longleftrightarrow> p = Some a \<and> alive a"
  by (auto simp: lock_def split: option.splits)

lemma lock_None_iff: "lock alive p = None \<longleftrightarrow> (\<forall>a. p = Some a \<longrightarrow> \<not> alive a)"
  by (auto simp: lock_def split: option.splits)

lemma lock_simps [simp]: "lock alive None = None" "lock alive (Some a) = (if alive a then Some a else None)"
  by (simp_all add: lock_def)

subsection \<open>The contract of a role\<close>

text \<open>
  What a session can rely on for one role: only a live session holds it, a free role is
  given to whoever asks, a held one to nobody else, and it is given up by removal or by the
  holder's destruction only.
\<close>

fun attempts :: "(addr \<Rightarrow> 'st \<Rightarrow> bool \<times> 'st) \<Rightarrow> addr list \<Rightarrow> 'st \<Rightarrow> bool list \<times> 'st" where
  "attempts set_node [] st = ([], st)"
| "attempts set_node (a # as) st =
     (fst (set_node a st) # fst (attempts set_node as (snd (set_node a st))),
      snd (attempts set_node as (snd (set_node a st))))"

locale role_slot =
  fixes set_node :: "(addr \<Rightarrow> bool) \<Rightarrow> addr \<Rightarrow> 'st \<Rightarrow> bool \<times> 'st"
    and get_node :: "(addr \<Rightarrow> bool) \<Rightarrow> 'st \<Rightarrow> addr option"
    and has_node :: "(addr \<Rightarrow> bool) \<Rightarrow> 'st \<Rightarrow> bool"
    and remove :: "(addr \<Rightarrow> bool) \<Rightarrow> addr \<Rightarrow> 'st \<Rightarrow> 'st"
  assumes get_alive: "get_node alive st = Some a \<Longrightarrow> alive a"
    and set_free: "get_node alive st = None \<or> get_node alive st = Some a \<Longrightarrow> alive a \<Longrightarrow>
          fst (set_node alive a st) \<and> get_node alive (snd (set_node alive a st)) = Some a"
    and set_taken: "get_node alive st = Some b \<Longrightarrow> b \<noteq> a \<Longrightarrow> set_node alive a st = (False, st)"
    and get_remove: "get_node alive (remove alive a st) =
          (if get_node alive st = Some a then None else get_node alive st)"
    and has_get: "has_node alive st \<longleftrightarrow> get_node alive st \<noteq> None"
    and get_expired: "(\<And>a. alive' a \<Longrightarrow> alive a) \<Longrightarrow>
          get_node alive' st =
            (case get_node alive st of None \<Rightarrow> None | Some a \<Rightarrow> if alive' a then Some a else None)"
begin

lemma set_result: "alive a \<Longrightarrow> fst (set_node alive a st) \<longleftrightarrow> get_node alive st = None \<or> get_node alive st = Some a"
proof (cases "get_node alive st")
  case (Some b)
  then show "alive a \<Longrightarrow> ?thesis"
    using set_free [of alive st a] set_taken [of alive st b a] by (cases "b = a") auto
qed (simp add: set_free)

lemma held_attempts:
  "alive h \<Longrightarrow> get_node alive st = Some h \<Longrightarrow>
   fst (attempts (set_node alive) as st) = map (\<lambda>a. a = h) as \<and>
   get_node alive (snd (attempts (set_node alive) as st)) = Some h"
proof (induction as arbitrary: st)
  case (Cons a as)
  have "fst (set_node alive a st) \<longleftrightarrow> a = h" and "get_node alive (snd (set_node alive a st)) = Some h"
    using Cons.prems set_free [of alive st a] set_taken [of alive st h a]
    by (cases "a = h"; simp)+
  then show ?case using Cons.IH [of "snd (set_node alive a st)"] Cons.prems(1) by simp
qed simp

lemma first_attempt_wins:
  assumes "get_node alive st = None" and "alive h"
  shows "fst (attempts (set_node alive) (h # as) st) = True # map (\<lambda>a. a = h) as \<and>
         get_node alive (snd (attempts (set_node alive) (h # as) st)) = Some h"
  using set_free [of alive st h] held_attempts [of alive h "snd (set_node alive h st)" as] assms
  by simp

lemma removed_is_free: "get_node alive st = Some h \<Longrightarrow> get_node alive (remove alive h st) = None"
  by (simp add: get_remove)

lemma dead_is_free: "get_node alive st = Some h \<Longrightarrow> get_node (alive(h := False)) st = None"
  using get_expired [of "alive(h := False)" alive st] by (auto split: if_splits)

lemma other_death: "get_node alive st \<noteq> Some h \<Longrightarrow> get_node (alive(h := False)) st = get_node alive st"
  using get_expired [of "alive(h := False)" alive st] get_alive [of alive st]
  by (cases "get_node alive st") (auto split: if_splits)

text \<open>Both ways a holder goes, and what the next live session that asks finds.\<close>

lemma release_frees:
  assumes "get_node alive st = Some h"
  shows "\<not> has_node alive (remove alive h st)" "\<not> has_node (alive(h := False)) st"
    "alive s \<Longrightarrow> fst (set_node alive s (remove alive h st)) \<and>
       get_node alive (snd (set_node alive s (remove alive h st))) = Some s"
    "alive s \<Longrightarrow> s \<noteq> h \<Longrightarrow> fst (set_node (alive(h := False)) s st) \<and>
       get_node (alive(h := False)) (snd (set_node (alive(h := False)) s st)) = Some s"
  using removed_is_free [OF assms] dead_is_free [OF assms] set_free [of alive "remove alive h st" s]
    set_free [of "alive(h := False)" st s]
  by (simp_all add: has_get)

lemma release_of_other:
  assumes "get_node alive st \<noteq> Some h"
  shows "get_node alive (remove alive h st) = get_node alive st"
    "get_node (alive(h := False)) st = get_node alive st"
  using get_remove [of alive h st] other_death [OF assms] assms by simp_all

end

interpretation slot_a: role_slot SetNodeA GetNodeA HasNodeA RemoveSession
  by unfold_locales
    (auto simp: SetNodeA_def GetNodeA_def HasNodeA_def RemoveSession_def Let_def lock_def split: option.splits if_splits)

interpretation slot_b: role_slot SetNodeB GetNodeB HasNodeB RemoveSession
  by unfold_locales
    (auto simp: SetNodeB_def GetNodeB_def HasNodeB_def RemoveSession_def Let_def lock_def split: option.splits if_splits)

lemma other_role_kept:
  "GetNodeB alive (snd (SetNodeA alive s st)) = GetNodeB alive st"
  "GetNodeA alive (snd (SetNodeB alive s st)) = GetNodeA alive st"
  by (simp_all add: SetNodeA_def SetNodeB_def GetNodeA_def GetNodeB_def Let_def)

subsection \<open>Properties\<close>

text \<open>
  C5. The first live session that asks for a free role gets it and keeps it: of any later
  sequence of requests for the role of Node A exactly the holder's own succeed, and the
  holder stays registered. The same for Node B.
\<close>

theorem first_registration_wins:
  assumes "alive h"
  shows "(GetNodeA alive st = None \<longrightarrow>
            fst (attempts (SetNodeA alive) (h # as) st) = True # map (\<lambda>a. a = h) as \<and>
            GetNodeA alive (snd (attempts (SetNodeA alive) (h # as) st)) = Some h) \<and>
         (GetNodeB alive st = None \<longrightarrow>
            fst (attempts (SetNodeB alive) (h # as) st) = True # map (\<lambda>a. a = h) as \<and>
            GetNodeB alive (snd (attempts (SetNodeB alive) (h # as) st)) = Some h)"
  using slot_a.first_attempt_wins [of alive st h as] slot_b.first_attempt_wins [of alive st h as] assms
  by blast

theorem first_registration_wins_witness:
  "fst (attempts (SetNodeA (\<lambda>_. True)) [3, 4, 3] empty_registry) = [True, False, True]"
  using first_registration_wins [of "\<lambda>_. True" 3 empty_registry "[4, 3]"]
  by (simp add: GetNodeA_def empty_registry_def)

text \<open>
  C35. A role is free again as soon as its holder is removed or no longer exists: nobody is
  registered for it, and the next live session that asks gets it. A role that another session
  holds, or nobody, is not touched by either, and a registration never changes the other role.
\<close>

theorem role_release:
  "(GetNodeA alive st = Some h \<longrightarrow>
      \<not> HasNodeA alive (RemoveSession alive h st) \<and> \<not> HasNodeA (alive(h := False)) st \<and>
      (alive s \<longrightarrow> fst (SetNodeA alive s (RemoveSession alive h st)) \<and>
         GetNodeA alive (snd (SetNodeA alive s (RemoveSession alive h st))) = Some s) \<and>
      (alive s \<and> s \<noteq> h \<longrightarrow> fst (SetNodeA (alive(h := False)) s st) \<and>
         GetNodeA (alive(h := False)) (snd (SetNodeA (alive(h := False)) s st)) = Some s)) \<and>
   (GetNodeB alive st = Some h \<longrightarrow>
      \<not> HasNodeB alive (RemoveSession alive h st) \<and> \<not> HasNodeB (alive(h := False)) st \<and>
      (alive s \<longrightarrow> fst (SetNodeB alive s (RemoveSession alive h st)) \<and>
         GetNodeB alive (snd (SetNodeB alive s (RemoveSession alive h st))) = Some s) \<and>
      (alive s \<and> s \<noteq> h \<longrightarrow> fst (SetNodeB (alive(h := False)) s st) \<and>
         GetNodeB (alive(h := False)) (snd (SetNodeB (alive(h := False)) s st)) = Some s)) \<and>
   (GetNodeA alive st \<noteq> Some h \<longrightarrow>
      GetNodeA alive (RemoveSession alive h st) = GetNodeA alive st \<and>
      GetNodeA (alive(h := False)) st = GetNodeA alive st) \<and>
   (GetNodeB alive st \<noteq> Some h \<longrightarrow>
      GetNodeB alive (RemoveSession alive h st) = GetNodeB alive st \<and>
      GetNodeB (alive(h := False)) st = GetNodeB alive st) \<and>
   (HasNodeA alive st \<longleftrightarrow> GetNodeA alive st \<noteq> None) \<and> (HasNodeB alive st \<longleftrightarrow> GetNodeB alive st \<noteq> None) \<and>
   GetNodeB alive (snd (SetNodeA alive s st)) = GetNodeB alive st \<and>
   GetNodeA alive (snd (SetNodeB alive s st)) = GetNodeA alive st"
  by (simp add: slot_a.release_frees slot_b.release_frees slot_a.release_of_other slot_b.release_of_other
      other_role_kept del: fun_upd_apply)
    (simp add: slot_a.has_get slot_b.has_get)

theorem role_release_witness:
  "\<not> HasNodeA (\<lambda>_. True) (RemoveSession (\<lambda>_. True) 1 \<lparr>node_a = Some 1, node_b = Some 2\<rparr>) \<and>
   GetNodeB (\<lambda>_. True) (RemoveSession (\<lambda>_. True) 1 \<lparr>node_a = Some 1, node_b = Some 2\<rparr>) = Some 2 \<and>
   \<not> HasNodeA ((\<lambda>_. True)(1 := False)) \<lparr>node_a = Some 1, node_b = Some 2\<rparr> \<and>
   fst (SetNodeA ((\<lambda>_. True)(1 := False)) 3 \<lparr>node_a = Some 1, node_b = Some 2\<rparr>)"
  using role_release [of "\<lambda>_. True" "\<lparr>node_a = Some 1, node_b = Some 2\<rparr>" 1 3]
  by (simp add: GetNodeA_def GetNodeB_def)

end
