(* ===== verification/ClientSession.thy ===== *)
theory ClientSession
  imports JsonProtocol Framing ServerState
begin

text \<open>
  \<open>src/server/client_session.cpp\<close>: one connection of the server. All handlers run on the one
  thread that runs the io context, one after the other. A handler is a function on the whole
  \<open>server\<close> record, because sessions reach each other through the registry: \<open>objects\<close> is the
  heap of session objects, \<open>live\<close> says which of them exist, \<open>wire\<close> the bytes each peer has been
  sent. The \<open>read_pending\<close> and \<open>write_pending\<close> fields are the asynchronous operations a session
  has started and whose completion handler has not run; while one is pending its handler
  holds the object. Messages on \<open>std::cout\<close> and \<open>std::cerr\<close> are values of \<open>diag\<close>.
\<close>

subsection \<open>State\<close>

record session =
  socket_open :: bool
  buffer :: string
  has_server_state :: bool
  role :: string
  write_queue :: "string list"
  session_closed :: bool
  received_accel_packets_count :: u64
  accepted_accel_packets_count :: u64
  dropped_accel_packets_count :: u64
  forwared_accel_packets_count :: u64
  received_modules_count :: u64
  forwared_modules_count :: u64
  has_last_accel_packer :: bool
  last_accel_packet :: AccelPacket
  read_pending :: bool
  write_pending :: "string option"

datatype diag =
    SendFailedNotOpen | ClientDisconnected | ReadError string | EmptyLine | InvalidJson string
  | ProtocolError string | InvalidHello string | ClientRole string | UnsupportedType string
  | NoServerState | AlreadyRegistered string | RegisteredAs string string
  | NodeAlreadyConnected string | NodeRegistered string | UnsupportedRole string
  | AccelNotRegistered | AccelNotNodeA | InvalidAccelPacket string | DroppedDuplicates u64
  | AcceptedPackets u64 u64 u64 AccelPacket
  | ModuleNotRegistered | ModuleNotNodeB | InvalidModule string | ReceivedModules u64 AccelModule
  | PacketNoServerState | NodeBNotConnected | ForwardToNodeBFailed
  | ModuleNoServerState | NodeANotConnected | ForwardToNodeAFailed
  | WriteError string | NodeDisconnected string
  | AcceptError string | ClientConnected string nat
  | OpenFailed string | ReuseAddressFailed string | BindFailed string | ListenFailed string | Listening

record server =
  objects :: "addr \<Rightarrow> session"
  live :: "addr \<Rightarrow> bool"
  registry :: ServerState
  next_addr :: addr
  wire :: "addr \<Rightarrow> string"
  diags :: "diag list"
  accept_pending :: bool
  running :: bool

definition upd :: "addr \<Rightarrow> (session \<Rightarrow> session) \<Rightarrow> server \<Rightarrow> server" where
  "upd a f w = w\<lparr>objects := (objects w)(a := f (objects w a))\<rparr>"

definition emit :: "diag \<Rightarrow> server \<Rightarrow> server" where
  "emit d w = w\<lparr>diags := diags w @ [d]\<rparr>"

text \<open>A fresh object: the constructor with the accepted socket and the server's registry.\<close>

definition new_session :: session where
  "new_session =
     \<lparr>socket_open = True, buffer = [], has_server_state = True, role = [], write_queue = [],
      session_closed = False, received_accel_packets_count = 0, accepted_accel_packets_count = 0,
      dropped_accel_packets_count = 0, forwared_accel_packets_count = 0,
      received_modules_count = 0, forwared_modules_count = 0, has_last_accel_packer = False,
      last_accel_packet = default_packet, read_pending = False, write_pending = None\<rparr>"

subsection \<open>Writing\<close>

definition WriteNextMessage :: "addr \<Rightarrow> server \<Rightarrow> server" where
  "WriteNextMessage a w =
     (if session_closed (objects w a) \<or> write_queue (objects w a) = [] then w
      else upd a (\<lambda>s. s\<lparr>write_pending := Some (hd (write_queue s))\<rparr>) w)"

definition server_frame :: "string \<Rightarrow> string" where
  "server_frame message = message @ [newline]"

definition SendJson :: "'j env \<Rightarrow> addr \<Rightarrow> 'j \<Rightarrow> server \<Rightarrow> bool \<times> server" where
  "SendJson E a json w =
     (if session_closed (objects w a) \<or> \<not> socket_open (objects w a)
      then (False, emit SendFailedNotOpen w)
      else
        let message = server_frame (json_dump E json);
            write_in_progress = (write_queue (objects w a) \<noteq> []);
            w1 = upd a (\<lambda>s. s\<lparr>write_queue := write_queue s @ [message]\<rparr>) w
        in (True, if \<not> write_in_progress then WriteNextMessage a w1 else w1))"

subsection \<open>Closing\<close>

definition Close :: "addr \<Rightarrow> server \<Rightarrow> server" where
  "Close a w =
     (if session_closed (objects w a) then w
      else
        let w1 = upd a (\<lambda>s. s\<lparr>session_closed := True\<rparr>) w;
            w2 = (if role (objects w1 a) \<noteq> [] then emit (NodeDisconnected (role (objects w1 a))) w1 else w1);
            w3 = (if has_server_state (objects w2 a)
                  then w2\<lparr>registry := RemoveSession (live w2) a (registry w2)\<rparr> else w2)
        in if socket_open (objects w3 a) then upd a (\<lambda>s. s\<lparr>socket_open := False\<rparr>) w3 else w3)"

subsection \<open>Forwarding\<close>

definition ForwardAccelPacketToNodeB :: "'j env \<Rightarrow> addr \<Rightarrow> AccelPacket \<Rightarrow> server \<Rightarrow> server" where
  "ForwardAccelPacketToNodeB E a packet w =
     (if \<not> has_server_state (objects w a) then emit PacketNoServerState w
      else
        case GetNodeB (live w) (registry w) of
          None \<Rightarrow>
            (if accepted_accel_packets_count (objects w a) mod 50 = 0 then emit NodeBNotConnected w else w)
        | Some b \<Rightarrow>
            (case SendJson E b (ToJson_packet E packet) w of
               (sent, w1) \<Rightarrow>
                 if \<not> sent then emit ForwardToNodeBFailed w1
                 else upd a (\<lambda>s. s\<lparr>forwared_accel_packets_count := forwared_accel_packets_count s + 1\<rparr>) w1))"

definition ForwardAccelModuleToNodeA :: "'j env \<Rightarrow> addr \<Rightarrow> AccelModule \<Rightarrow> server \<Rightarrow> server" where
  "ForwardAccelModuleToNodeA E a m w =
     (if \<not> has_server_state (objects w a) then emit ModuleNoServerState w
      else
        case GetNodeA (live w) (registry w) of
          None \<Rightarrow>
            (if received_modules_count (objects w a) mod 50 = 0 then emit NodeANotConnected w else w)
        | Some b \<Rightarrow>
            (case SendJson E b (ToJson_module E m) w of
               (sent, w1) \<Rightarrow>
                 if \<not> sent then emit ForwardToNodeAFailed w1
                 else upd a (\<lambda>s. s\<lparr>forwared_modules_count := forwared_modules_count s + 1\<rparr>) w1))"

subsection \<open>Handling a message\<close>

definition HandleAccelPacket :: "'j env \<Rightarrow> addr \<Rightarrow> 'j \<Rightarrow> server \<Rightarrow> server" where
  "HandleAccelPacket E a json w =
     (if role (objects w a) = [] then emit AccelNotRegistered w
      else if role (objects w a) \<noteq> k_role_A then emit AccelNotNodeA w
      else
        case ParseAccelPacket E json of
          failure error \<Rightarrow> emit (InvalidAccelPacket error) w
        | success packet \<Rightarrow>
            let w1 = upd a (\<lambda>s. s\<lparr>received_accel_packets_count := received_accel_packets_count s + 1\<rparr>) w;
                s1 = objects w1 a
            in if has_last_accel_packer s1 \<and>
                  IsDuplicate (llround_unspecified E) packet (last_accel_packet s1)
               then
                 let w2 = upd a (\<lambda>s. s\<lparr>dropped_accel_packets_count := dropped_accel_packets_count s + 1\<rparr>) w1
                 in if dropped_accel_packets_count (objects w2 a) mod 50 = 0
                    then emit (DroppedDuplicates (dropped_accel_packets_count (objects w2 a))) w2 else w2
               else
                 let w2 = upd a (\<lambda>s. s\<lparr>last_accel_packet := packet, has_last_accel_packer := True,
                            accepted_accel_packets_count := accepted_accel_packets_count s + 1\<rparr>) w1;
                     w3 = ForwardAccelPacketToNodeB E a packet w2;
                     s3 = objects w3 a
                 in if accepted_accel_packets_count s3 mod 50 = 0
                    then emit (AcceptedPackets (accepted_accel_packets_count s3)
                           (received_accel_packets_count s3) (dropped_accel_packets_count s3) packet) w3
                    else w3)"

definition HandleModulePacket :: "'j env \<Rightarrow> addr \<Rightarrow> 'j \<Rightarrow> server \<Rightarrow> server" where
  "HandleModulePacket E a json w =
     (if role (objects w a) = [] then emit ModuleNotRegistered w
      else if role (objects w a) \<noteq> k_role_B then emit ModuleNotNodeB w
      else
        case ParseAccelModule E json of
          failure error \<Rightarrow> emit (InvalidModule error) w
        | success m \<Rightarrow>
            let w1 = upd a (\<lambda>s. s\<lparr>received_modules_count := received_modules_count s + 1\<rparr>) w;
                w2 = ForwardAccelModuleToNodeA E a m w1
            in if received_modules_count (objects w2 a) mod 50 = 0
               then emit (ReceivedModules (received_modules_count (objects w2 a)) m) w2 else w2)"

definition RegisterRole :: "addr \<Rightarrow> string \<Rightarrow> server \<Rightarrow> server" where
  "RegisterRole a r w =
     (if \<not> has_server_state (objects w a) then emit NoServerState w
      else if role (objects w a) \<noteq> [] then
        (if role (objects w a) = r then emit (AlreadyRegistered r) w
         else emit (RegisteredAs (role (objects w a)) r) w)
      else if r = k_role_A then
        (case SetNodeA (live w) a (registry w) of
           (granted, st) \<Rightarrow>
             if \<not> granted then emit (NodeAlreadyConnected k_role_A) (w\<lparr>registry := st\<rparr>)
             else emit (NodeRegistered k_role_A) (upd a (\<lambda>s. s\<lparr>role := r\<rparr>) (w\<lparr>registry := st\<rparr>)))
      else if r = k_role_B then
        (case SetNodeB (live w) a (registry w) of
           (granted, st) \<Rightarrow>
             if \<not> granted then emit (NodeAlreadyConnected k_role_B) (w\<lparr>registry := st\<rparr>)
             else emit (NodeRegistered k_role_B) (upd a (\<lambda>s. s\<lparr>role := r\<rparr>) (w\<lparr>registry := st\<rparr>)))
      else emit (UnsupportedRole r) w)"

definition HandleLine :: "'j env \<Rightarrow> addr \<Rightarrow> string \<Rightarrow> server \<Rightarrow> server" where
  "HandleLine E a line w =
     (if line = [] then emit EmptyLine w
      else
        case ParseJsonLine E line of
          failure error \<Rightarrow> emit (InvalidJson error) w
        | success json \<Rightarrow>
            (case GetMessageType E json of
               failure error \<Rightarrow> emit (ProtocolError error) w
             | success ty \<Rightarrow>
                 if ty = k_type_hello then
                   (case GetClientRole E json of
                      failure error \<Rightarrow> emit (InvalidHello error) w
                    | success r \<Rightarrow> RegisterRole a r (emit (ClientRole r) w))
                 else if ty = k_type_accel then HandleAccelPacket E a json w
                 else if ty = k_type_module then HandleModulePacket E a json w
                 else emit (UnsupportedType ty) w))"

subsection \<open>Completion handlers\<close>

text \<open>A read completes with an error, or with bytes that put a newline into the buffer.\<close>

datatype io_error = Eof | OtherError string
datatype read_completion = ReadFail io_error | ReadData string

definition ReadNextLine :: "addr \<Rightarrow> server \<Rightarrow> server" where
  "ReadNextLine a w =
     (if session_closed (objects w a) then w else upd a (\<lambda>s. s\<lparr>read_pending := True\<rparr>) w)"

definition Start_session :: "addr \<Rightarrow> server \<Rightarrow> server" where
  "Start_session a w = ReadNextLine a w"

text \<open>
  When a handler returns, the reference it held is gone; the object is destroyed unless
  another pending operation still holds it.
\<close>

definition release :: "addr \<Rightarrow> server \<Rightarrow> server" where
  "release a w =
     (if read_pending (objects w a) \<or> write_pending (objects w a) \<noteq> None then w
      else w\<lparr>live := (live w)(a := False)\<rparr>)"

definition on_read :: "'j env \<Rightarrow> addr \<Rightarrow> read_completion \<Rightarrow> server \<Rightarrow> server" where
  "on_read E a result w =
     (let w0 = upd a (\<lambda>s. s\<lparr>read_pending := False\<rparr>) w in
      case result of
        ReadFail error \<Rightarrow>
          Close a (emit (case error of Eof \<Rightarrow> ClientDisconnected | OtherError m \<Rightarrow> ReadError m) w0)
      | ReadData chunk \<Rightarrow>
          (case getline (buffer (objects w0 a) @ chunk) of
             (line, rest) \<Rightarrow>
               let w1 = upd a (\<lambda>s. s\<lparr>buffer := rest\<rparr>) w0;
                   w2 = HandleLine E a (strip_cr line) w1
               in if \<not> session_closed (objects w2 a) then ReadNextLine a w2 else w2))"

definition on_write :: "addr \<Rightarrow> string option \<Rightarrow> server \<Rightarrow> server" where
  "on_write a result w =
     (let w0 = upd a (\<lambda>s. s\<lparr>write_pending := None\<rparr>) w in
      case result of
        Some error \<Rightarrow>
          Close a (upd a (\<lambda>s. s\<lparr>write_queue := []\<rparr>) (emit (WriteError error) w0))
      | None \<Rightarrow>
          let w1 = upd a (\<lambda>s. s\<lparr>write_queue := tl (write_queue s)\<rparr>) w0 in
          if \<not> session_closed (objects w1 a) \<and> write_queue (objects w1 a) \<noteq> []
          then WriteNextMessage a w1 else w1)"

lemmas handler_definitions [handler_defs] = WriteNextMessage_def SendJson_def Close_def
  ForwardAccelPacketToNodeB_def ForwardAccelModuleToNodeA_def HandleAccelPacket_def
  HandleModulePacket_def RegisterRole_def HandleLine_def ReadNextLine_def Start_session_def

interpretation server_writer: line_writer server_frame
  by unfold_locales (simp add: server_frame_def)

subsection \<open>What handling a message leaves alone\<close>

lemma upd_simps [simp]:
  "objects (upd a f w) = (objects w)(a := f (objects w a))" "live (upd a f w) = live w"
  "registry (upd a f w) = registry w" "next_addr (upd a f w) = next_addr w"
  "wire (upd a f w) = wire w" "diags (upd a f w) = diags w"
  "accept_pending (upd a f w) = accept_pending w" "running (upd a f w) = running w"
  by (simp_all add: upd_def)

lemma emit_simps [simp]:
  "objects (emit d w) = objects w" "live (emit d w) = live w" "registry (emit d w) = registry w"
  "next_addr (emit d w) = next_addr w" "wire (emit d w) = wire w" "diags (emit d w) = diags w @ [d]"
  "accept_pending (emit d w) = accept_pending w" "running (emit d w) = running w"
  by (simp_all add: emit_def)

text \<open>
  \<open>extends w w'\<close>: no session is opened, closed, read from or destroyed between \<open>w\<close> and \<open>w'\<close>,
  a role once given stays, a write under way stays, none is started on a closed session, and
  write queues grow at the end only.
\<close>

definition session_extends :: "session \<Rightarrow> session \<Rightarrow> bool" where
  "session_extends s t \<longleftrightarrow>
     socket_open t = socket_open s \<and> buffer t = buffer s \<and> has_server_state t = has_server_state s \<and>
     session_closed t = session_closed s \<and> read_pending t = read_pending s \<and>
     (role s \<noteq> [] \<longrightarrow> role t = role s) \<and>
     (write_pending s \<noteq> None \<longrightarrow> write_pending t = write_pending s) \<and>
     (session_closed s \<longrightarrow> write_pending t = write_pending s) \<and>
     (\<exists>more. write_queue t = write_queue s @ more)"

definition extends :: "server \<Rightarrow> server \<Rightarrow> bool" where
  "extends w w' \<longleftrightarrow>
     live w' = live w \<and> next_addr w' = next_addr w \<and> wire w' = wire w \<and>
     accept_pending w' = accept_pending w \<and> running w' = running w \<and>
     (\<forall>b. session_extends (objects w b) (objects w' b))"

lemma session_extends_refl [simp]: "session_extends s s"
  by (simp add: session_extends_def)

lemma session_extends_trans: "session_extends r s \<Longrightarrow> session_extends s t \<Longrightarrow> session_extends r t"
  unfolding session_extends_def by (elim conjE exE) simp

lemma extends_refl [simp]: "extends w w"
  by (simp add: extends_def)

lemma extends_trans [trans]: "extends u v \<Longrightarrow> extends v w \<Longrightarrow> extends u w"
  by (auto simp: extends_def intro: session_extends_trans)

lemma extends_emit [simp]: "extends w (emit d w') \<longleftrightarrow> extends w w'"
  by (simp add: extends_def)

lemma extends_registry [simp]: "extends w (w'\<lparr>registry := st\<rparr>) \<longleftrightarrow> extends w w'"
  by (simp add: extends_def)

lemma extends_upd: "extends w w' \<Longrightarrow> session_extends (objects w' a) (f (objects w' a)) \<Longrightarrow> extends w (upd a f w')"
  by (auto simp: extends_def intro: session_extends_trans)

lemma extends_SendJson: "extends w w' \<Longrightarrow> write_pending (objects w' a) \<noteq> None \<longrightarrow> write_queue (objects w' a) \<noteq> [] \<Longrightarrow>
   extends w (snd (SendJson E a json w'))"
  by (auto simp: SendJson_def WriteNextMessage_def Let_def session_extends_def intro!: extends_upd)

text \<open>In every handler the queue holds the message being written.\<close>

definition queues_ok :: "server \<Rightarrow> bool" where
  "queues_ok w \<longleftrightarrow> (\<forall>b. write_pending (objects w b) \<noteq> None \<longrightarrow> write_queue (objects w b) \<noteq> [])"

lemma extends_ForwardB: "queues_ok w' \<Longrightarrow> extends w w' \<Longrightarrow> extends w (ForwardAccelPacketToNodeB E a p w')"
  using extends_SendJson [of w w' _ E "ToJson_packet E p"]
  by (auto simp: ForwardAccelPacketToNodeB_def queues_ok_def session_extends_def
      split: option.splits prod.splits intro!: extends_upd) (metis snd_conv)+

lemma queues_ok_simps [simp]:
  "queues_ok (emit d w) = queues_ok w" "queues_ok (w\<lparr>registry := st\<rparr>) = queues_ok w"
  by (simp_all add: queues_ok_def)

lemma queues_ok_upd:
  "queues_ok w \<Longrightarrow> write_pending (f (objects w a)) = write_pending (objects w a) \<Longrightarrow>
   write_queue (f (objects w a)) = write_queue (objects w a) \<Longrightarrow> queues_ok (upd a f w)"
  by (simp add: queues_ok_def)

lemma extends_ForwardA: "queues_ok w' \<Longrightarrow> extends w w' \<Longrightarrow> extends w (ForwardAccelModuleToNodeA E a m w')"
  using extends_SendJson [of w w' _ E "ToJson_module E m"]
  by (auto simp: ForwardAccelModuleToNodeA_def queues_ok_def session_extends_def
      split: option.splits prod.splits intro!: extends_upd) (metis snd_conv)+

lemma extends_HandleAccelPacket: "queues_ok w \<Longrightarrow> extends w (HandleAccelPacket E a json w)"
  by (auto simp: HandleAccelPacket_def Let_def session_extends_def split: Result.splits
      intro!: extends_upd extends_ForwardB queues_ok_upd)

lemma extends_HandleModulePacket: "queues_ok w \<Longrightarrow> extends w (HandleModulePacket E a json w)"
  by (auto simp: HandleModulePacket_def Let_def session_extends_def split: Result.splits
      intro!: extends_upd extends_ForwardA queues_ok_upd)

lemma extends_RegisterRole: "extends w (RegisterRole a r w)"
  by (auto simp: RegisterRole_def session_extends_def split: prod.splits intro!: extends_upd)

lemma extends_HandleLine: "queues_ok w \<Longrightarrow> extends w (HandleLine E a line w)"
proof -
  assume q: "queues_ok w"
  have "extends w (RegisterRole a r (emit d w))" for r d
    using extends_RegisterRole [of "emit d w" a r] by (rule extends_trans [rotated]) simp
  then show ?thesis using extends_HandleAccelPacket [OF q] extends_HandleModulePacket [OF q]
    by (auto simp: HandleLine_def split: Result.splits)
qed

lemma extendsD:
  assumes "extends w w'"
  shows "live w' = live w" "next_addr w' = next_addr w" "wire w' = wire w"
    "accept_pending w' = accept_pending w" "running w' = running w"
    "socket_open (objects w' b) = socket_open (objects w b)"
    "buffer (objects w' b) = buffer (objects w b)"
    "has_server_state (objects w' b) = has_server_state (objects w b)"
    "session_closed (objects w' b) = session_closed (objects w b)"
    "read_pending (objects w' b) = read_pending (objects w b)"
    "role (objects w b) \<noteq> [] \<Longrightarrow> role (objects w' b) = role (objects w b)"
    "write_pending (objects w b) = Some m \<Longrightarrow> write_pending (objects w' b) = Some m"
    "\<exists>more. write_queue (objects w' b) = write_queue (objects w b) @ more"
    "session_closed (objects w b) \<Longrightarrow> write_pending (objects w' b) = write_pending (objects w b)"
  using assms by (auto simp: extends_def session_extends_def)

subsection \<open>Invariants of the sessions and the registry\<close>

definition session_ok :: "session \<Rightarrow> bool" where
  "session_ok s \<longleftrightarrow>
     has_server_state s \<and> socket_open s = (\<not> session_closed s) \<and>
     (role s = [] \<or> role s = k_role_A \<or> role s = k_role_B) \<and>
     (\<forall>m. write_pending s = Some m \<longrightarrow> (\<exists>q. write_queue s = m # q)) \<and>
     (\<not> session_closed s \<and> write_pending s = None \<longrightarrow> write_queue s = []) \<and>
     (role s = [] \<longrightarrow> write_queue s = [] \<and> write_pending s = None) \<and>
     received_accel_packets_count s = accepted_accel_packets_count s + dropped_accel_packets_count s"

definition registry_ok :: "server \<Rightarrow> bool" where
  "registry_ok w \<longleftrightarrow>
     (\<forall>b. live w b \<longrightarrow>
        (node_a (registry w) = Some b \<longleftrightarrow> role (objects w b) = k_role_A \<and> \<not> session_closed (objects w b)) \<and>
        (node_b (registry w) = Some b \<longleftrightarrow> role (objects w b) = k_role_B \<and> \<not> session_closed (objects w b)))"

definition core :: "server \<Rightarrow> bool" where
  "core w \<longleftrightarrow> (\<forall>b. live w b \<longrightarrow> session_ok (objects w b)) \<and> registry_ok w \<and> queues_ok w"

lemma role_constants [simp]: "k_role_A \<noteq> []" "k_role_B \<noteq> []" "[] \<noteq> k_role_A" "[] \<noteq> k_role_B" "k_role_A \<noteq> k_role_B" "k_role_B \<noteq> k_role_A"
  by (simp_all add: protocol_constants)

lemma core_emit [simp]: "core (emit d w) = core w"
  by (simp add: core_def registry_ok_def)

lemma core_upd:
  "core w \<Longrightarrow> (live w a \<Longrightarrow> session_ok (objects w a) \<Longrightarrow> session_ok (f (objects w a))) \<Longrightarrow>
   role (f (objects w a)) = role (objects w a) \<Longrightarrow>
   session_closed (f (objects w a)) = session_closed (objects w a) \<Longrightarrow>
   (write_pending (f (objects w a)) \<noteq> None \<Longrightarrow> write_queue (f (objects w a)) \<noteq> []) \<Longrightarrow> core (upd a f w)"
  by (auto simp: core_def registry_ok_def queues_ok_def)

lemma coreD:
  assumes "core w" and "live w b"
  shows "session_ok (objects w b)"
    and "node_a (registry w) = Some b \<longleftrightarrow> role (objects w b) = k_role_A \<and> \<not> session_closed (objects w b)"
    and "node_b (registry w) = Some b \<longleftrightarrow> role (objects w b) = k_role_B \<and> \<not> session_closed (objects w b)"
  using assms by (auto simp: core_def registry_ok_def)

lemma core_queues: "core w \<Longrightarrow> queues_ok w"
  by (simp add: core_def)

definition enqueue :: "string \<Rightarrow> session \<Rightarrow> session" where
  "enqueue message s =
     (if write_queue s = [] then s\<lparr>write_queue := [message], write_pending := Some message\<rparr>
      else s\<lparr>write_queue := write_queue s @ [message]\<rparr>)"

lemma upd_upd [simp]: "upd a g (upd a f w) = upd a (\<lambda>s. g (f s)) w"
  by (simp add: upd_def)

lemma upd_cong: "f (objects w a) = g (objects w a) \<Longrightarrow> upd a f w = upd a g w"
  by (simp add: upd_def)

lemma SendJson_enqueue:
  "SendJson E a json w =
     (if session_closed (objects w a) \<or> \<not> socket_open (objects w a) then (False, emit SendFailedNotOpen w)
      else (True, upd a (enqueue (server_frame (json_dump E json))) w))"
  by (auto simp: SendJson_def WriteNextMessage_def Let_def enqueue_def intro!: upd_cong)

lemma enqueue_simps [simp]:
  "role (enqueue m s) = role s" "session_closed (enqueue m s) = session_closed s"
  "read_pending (enqueue m s) = read_pending s" "has_server_state (enqueue m s) = has_server_state s"
  "socket_open (enqueue m s) = socket_open s" "write_queue (enqueue m s) = write_queue s @ [m]"
  "received_accel_packets_count (enqueue m s) = received_accel_packets_count s"
  "accepted_accel_packets_count (enqueue m s) = accepted_accel_packets_count s"
  "dropped_accel_packets_count (enqueue m s) = dropped_accel_packets_count s"
  "forwared_accel_packets_count (enqueue m s) = forwared_accel_packets_count s"
  "received_modules_count (enqueue m s) = received_modules_count s"
  "forwared_modules_count (enqueue m s) = forwared_modules_count s"
  "has_last_accel_packer (enqueue m s) = has_last_accel_packer s"
  "last_accel_packet (enqueue m s) = last_accel_packet s" "buffer (enqueue m s) = buffer s"
  by (simp_all add: enqueue_def)

lemma session_ok_enqueue: "session_ok s \<Longrightarrow> role s \<noteq> [] \<Longrightarrow> session_ok (enqueue m s)"
  unfolding session_ok_def by (auto simp: enqueue_def)

lemma core_SendJson: "core w \<Longrightarrow> live w b \<Longrightarrow> role (objects w b) \<noteq> [] \<Longrightarrow> core (snd (SendJson E b json w))"
  by (auto simp: SendJson_enqueue intro!: core_upd session_ok_enqueue)

lemma session_ok_forwarded [simp]:
  "session_ok (s\<lparr>forwared_accel_packets_count := n\<rparr>) = session_ok s"
  "session_ok (s\<lparr>forwared_modules_count := n\<rparr>) = session_ok s"
  "session_ok (s\<lparr>received_modules_count := n\<rparr>) = session_ok s"
  "session_ok (s\<lparr>read_pending := p\<rparr>) = session_ok s"
  "session_ok (s\<lparr>buffer := b\<rparr>) = session_ok s"
  by (simp_all add: session_ok_def)

lemma core_upd_same:
  assumes "core w" and "\<And>s. session_ok (f s) = session_ok s" and "\<And>s. role (f s) = role s"
    and "\<And>s. session_closed (f s) = session_closed s" and "\<And>s. write_pending (f s) = write_pending s"
    and "\<And>s. write_queue (f s) = write_queue s"
  shows "core (upd a f w)"
  using assms core_queues [OF assms(1)] by (intro core_upd) (auto simp: queues_ok_def)

lemma GetNodeB_core: "core w \<Longrightarrow> GetNodeB (live w) (registry w) = Some b \<Longrightarrow>
   live w b \<and> role (objects w b) = k_role_B \<and> \<not> session_closed (objects w b) \<and> socket_open (objects w b)"
  using coreD [of w b] by (auto simp: GetNodeB_def session_ok_def)

lemma GetNodeA_core: "core w \<Longrightarrow> GetNodeA (live w) (registry w) = Some b \<Longrightarrow>
   live w b \<and> role (objects w b) = k_role_A \<and> \<not> session_closed (objects w b) \<and> socket_open (objects w b)"
  using coreD [of w b] by (auto simp: GetNodeA_def session_ok_def)

lemma core_counters:
  assumes "core w"
  shows "core (upd a (\<lambda>s. s\<lparr>forwared_accel_packets_count := forwared_accel_packets_count s + 1\<rparr>) w)"
    and "core (upd a (\<lambda>s. s\<lparr>forwared_modules_count := forwared_modules_count s + 1\<rparr>) w)"
    and "core (upd a (\<lambda>s. s\<lparr>received_modules_count := received_modules_count s + 1\<rparr>) w)"
    and "core (upd a (\<lambda>s. s\<lparr>read_pending := p\<rparr>) w)"
    and "core (upd a (\<lambda>s. s\<lparr>buffer := b\<rparr>) w)"
  by (rule core_upd_same [OF assms]; simp)+

lemma core_ForwardB: "core w \<Longrightarrow> core (ForwardAccelPacketToNodeB E a p w)"
  using GetNodeB_core [of w] core_SendJson [of w _ E "ToJson_packet E p"]
  by (auto simp: ForwardAccelPacketToNodeB_def split: option.splits prod.splits
      intro!: core_counters) (metis snd_conv role_constants(2))+

lemma core_ForwardA: "core w \<Longrightarrow> core (ForwardAccelModuleToNodeA E a m w)"
  using GetNodeA_core [of w] core_SendJson [of w _ E "ToJson_module E m"]
  by (auto simp: ForwardAccelModuleToNodeA_def split: option.splits prod.splits
      intro!: core_counters) (metis snd_conv role_constants(1))+

lemma core_HandleAccelPacket: "core w \<Longrightarrow> core (HandleAccelPacket E a json w)"
proof -
  assume c: "core w"
  note q = core_queues [OF c, unfolded queues_ok_def, rule_format, of a]
  have drop: "core (upd a (\<lambda>s. s\<lparr>received_accel_packets_count := received_accel_packets_count s + 1,
        dropped_accel_packets_count := dropped_accel_packets_count s + 1\<rparr>) w)"
    using q by (intro core_upd [OF c]) (auto simp: session_ok_def)
  have acc: "core (upd a (\<lambda>s. s\<lparr>received_accel_packets_count := received_accel_packets_count s + 1,
        last_accel_packet := p, has_last_accel_packer := True,
        accepted_accel_packets_count := accepted_accel_packets_count s + 1\<rparr>) w)" for p
    using q by (intro core_upd [OF c]) (auto simp: session_ok_def)
  show ?thesis
    using c drop acc
    by (auto simp: HandleAccelPacket_def Let_def split: Result.splits intro!: core_ForwardB)
qed

lemma core_HandleModulePacket: "core w \<Longrightarrow> core (HandleModulePacket E a json w)"
  by (auto simp: HandleModulePacket_def Let_def split: Result.splits intro!: core_ForwardA core_counters)

lemma core_RegisterRole:
  assumes "core w" and "live w a" and "role (objects w a) \<noteq> [] \<or> \<not> session_closed (objects w a)"
  shows "core (RegisterRole a r w)"
proof -
  have ok: "session_ok (objects w a)" using coreD(1) [OF assms(1,2)] .
  have A: "core (upd a (\<lambda>s. s\<lparr>role := k_role_A\<rparr>) (w\<lparr>registry := (registry w)\<lparr>node_a := Some a\<rparr>\<rparr>))"
    if "role (objects w a) = []" and "fst (SetNodeA (live w) a (registry w))"
    using assms that ok unfolding core_def registry_ok_def queues_ok_def
    by (auto simp: session_ok_def SetNodeA_def Let_def lock_None_iff split: if_splits)
  have B: "core (upd a (\<lambda>s. s\<lparr>role := k_role_B\<rparr>) (w\<lparr>registry := (registry w)\<lparr>node_b := Some a\<rparr>\<rparr>))"
    if "role (objects w a) = []" and "fst (SetNodeB (live w) a (registry w))"
    using assms that ok unfolding core_def registry_ok_def queues_ok_def
    by (auto simp: session_ok_def SetNodeB_def Let_def lock_None_iff split: if_splits)
  show ?thesis using assms(1) A B
    by (auto simp: RegisterRole_def SetNodeA_def SetNodeB_def Let_def)
qed

lemma core_HandleLine:
  assumes "core w" and "live w a" and "role (objects w a) \<noteq> [] \<or> \<not> session_closed (objects w a)"
  shows "core (HandleLine E a line w)"
  using assms core_HandleAccelPacket core_HandleModulePacket core_RegisterRole [of "emit _ w" a]
  by (auto simp: HandleLine_def split: Result.splits)

text \<open>Closing: the registry forgets the session, its socket is closed, others are untouched.\<close>

lemma Close_closed: "session_closed (objects w a) \<Longrightarrow> Close a w = w"
  by (simp add: Close_def)

lemma Close_open:
  assumes "\<not> session_closed (objects w a)" and "has_server_state (objects w a)"
  shows "objects (Close a w) = (objects w)(a := (objects w a)\<lparr>session_closed := True, socket_open := False\<rparr>)"
    and "registry (Close a w) = RemoveSession (live w) a (registry w)"
    and "live (Close a w) = live w" and "next_addr (Close a w) = next_addr w"
    and "wire (Close a w) = wire w" and "accept_pending (Close a w) = accept_pending w"
    and "running (Close a w) = running w"
  using assms by (auto simp: Close_def Let_def)

lemma RemoveSession_simps:
  "al a \<Longrightarrow> node_a (RemoveSession al a st) = (if node_a st = Some a then None else node_a st)"
  "al a \<Longrightarrow> node_b (RemoveSession al a st) = (if node_b st = Some a then None else node_b st)"
  by (auto simp: RemoveSession_def Let_def)

lemma registry_ok_Close:
  assumes "registry_ok w" and "live w a" and "has_server_state (objects w a)"
  shows "registry_ok (Close a w)"
proof (cases "session_closed (objects w a)")
  case False
  note close = Close_open [OF False assms(3)]
  show ?thesis unfolding registry_ok_def
  proof (intro allI impI)
    fix b assume "live (Close a w) b"
    then have b: "live w b" by (simp add: close)
    note rb = assms(1) [unfolded registry_ok_def, rule_format, OF b]
    then show "(node_a (registry (Close a w)) = Some b \<longleftrightarrow>
          role (objects (Close a w) b) = k_role_A \<and> \<not> session_closed (objects (Close a w) b)) \<and>
        (node_b (registry (Close a w)) = Some b \<longleftrightarrow>
          role (objects (Close a w) b) = k_role_B \<and> \<not> session_closed (objects (Close a w) b))"
      by (cases "b = a") (simp_all add: close RemoveSession_simps assms(2), auto)
  qed
qed (simp add: Close_closed assms)

end
