(* ===== verification/TcpServer.thy ===== *)
theory TcpServer
  imports ClientSession
begin

text \<open>
  \<open>src/server/tcp_server.cpp\<close> and \<open>src/server/main.cpp\<close>: start-up, the accept loop, and the
  event loop \<open>io.run()\<close> as a step relation. Each step is the completion of one asynchronous
  operation: its handler runs to the end, then the reference the handler held is dropped.
  The network chooses which pending operation completes and how.
\<close>

subsection \<open>Start-up and accepting\<close>

definition initial_server :: server where
  "initial_server =
     \<lparr>objects = (\<lambda>_. new_session), live = (\<lambda>_. False), registry = empty_registry, next_addr = 0,
      wire = (\<lambda>_. []), diags = [], accept_pending = False, running = True\<rparr>"

definition AcceptNext :: "server \<Rightarrow> server" where
  "AcceptNext w = w\<lparr>accept_pending := True\<rparr>"

text \<open>The four calls that can fail, each with the message of its error code.\<close>

record start_errors =
  open_error :: "string option"
  reuse_address_error :: "string option"
  bind_error :: "string option"
  listen_error :: "string option"

definition Start_server :: "start_errors \<Rightarrow> server \<Rightarrow> bool \<times> server" where
  "Start_server errs w =
     (case open_error errs of
        Some m \<Rightarrow> (False, emit (OpenFailed m) w)
      | None \<Rightarrow>
     (case reuse_address_error errs of
        Some m \<Rightarrow> (False, emit (ReuseAddressFailed m) w)
      | None \<Rightarrow>
     (case bind_error errs of
        Some m \<Rightarrow> (False, emit (BindFailed m) w)
      | None \<Rightarrow>
     (case listen_error errs of
        Some m \<Rightarrow> (False, emit (ListenFailed m) w)
      | None \<Rightarrow> (True, AcceptNext (emit Listening w))))))"

text \<open>
  An accept completes with an error or with a socket. \<open>socket.remote_endpoint()\<close> throws when
  the peer is already gone (\<open>Accepted None\<close>): nothing catches the exception, it leaves
  \<open>io.run()\<close> and \<open>main\<close>, and the process ends.
\<close>

datatype accept_completion = AcceptFail string | Accepted "(string \<times> nat) option"

definition create_session :: "server \<Rightarrow> server" where
  "create_session w =
     w\<lparr>objects := (objects w)(next_addr w := new_session), live := (live w)(next_addr w := True),
       wire := (wire w)(next_addr w := []), next_addr := next_addr w + 1\<rparr>"

definition on_accept :: "accept_completion \<Rightarrow> server \<Rightarrow> server" where
  "on_accept result w =
     (let w0 = w\<lparr>accept_pending := False\<rparr> in
      case result of
        AcceptFail m \<Rightarrow> AcceptNext (emit (AcceptError m) w0)
      | Accepted None \<Rightarrow> w0\<lparr>running := False\<rparr>
      | Accepted (Some (address, port)) \<Rightarrow>
          let w1 = create_session (emit (ClientConnected address port) w0)
          in AcceptNext (Start_session (next_addr w0) w1))"

subsection \<open>The event loop\<close>

datatype event =
    AcceptEvent accept_completion
  | ReadEvent addr read_completion
  | WriteEvent addr "(string \<times> nat) option"  \<comment> \<open>an error with the number of bytes written, or success\<close>

definition read_enabled :: "session \<Rightarrow> read_completion \<Rightarrow> bool" where
  "read_enabled s r \<longleftrightarrow> (case r of ReadFail _ \<Rightarrow> True | ReadData chunk \<Rightarrow> newline \<in> set (buffer s @ chunk))"

definition put_wire :: "addr \<Rightarrow> string \<Rightarrow> server \<Rightarrow> server" where
  "put_wire a bytes w = w\<lparr>wire := (wire w)(a := wire w a @ bytes)\<rparr>"

inductive server_step :: "'j env \<Rightarrow> server \<Rightarrow> event \<Rightarrow> server \<Rightarrow> bool" for E where
  accept: "running w \<Longrightarrow> accept_pending w \<Longrightarrow> server_step E w (AcceptEvent r) (on_accept r w)"
| read: "running w \<Longrightarrow> live w a \<Longrightarrow> read_pending (objects w a) \<Longrightarrow> read_enabled (objects w a) r \<Longrightarrow>
    server_step E w (ReadEvent a r) (release a (on_read E a r w))"
| written: "running w \<Longrightarrow> live w a \<Longrightarrow> write_pending (objects w a) = Some m \<Longrightarrow>
    server_step E w (WriteEvent a None) (release a (on_write a None (put_wire a m w)))"
| write_failed: "running w \<Longrightarrow> live w a \<Longrightarrow> write_pending (objects w a) = Some m \<Longrightarrow>
    server_step E w (WriteEvent a (Some (error, n)))
      (release a (on_write a (Some error) (put_wire a (take n m) w)))"

inductive_cases AcceptEventE: "server_step E w (AcceptEvent r) w'"
inductive_cases ReadEventE: "server_step E w (ReadEvent a r) w'"
inductive_cases WriteEventE: "server_step E w (WriteEvent a r) w'"
inductive_simps accept_step_iff: "server_step E w (AcceptEvent r) w'"
inductive_simps read_step_iff: "server_step E w (ReadEvent a r) w'"
inductive_simps written_step_iff: "server_step E w (WriteEvent a None) w'"
inductive_simps write_failed_step_iff: "server_step E w (WriteEvent a (Some (error, n))) w'"

text \<open>The same as a function of the event, \<open>None\<close> when the event cannot happen.\<close>

fun exec_event :: "'j env \<Rightarrow> event \<Rightarrow> server \<Rightarrow> server option" where
  "exec_event E (AcceptEvent r) w = (if running w \<and> accept_pending w then Some (on_accept r w) else None)"
| "exec_event E (ReadEvent a r) w =
     (if running w \<and> live w a \<and> read_pending (objects w a) \<and> read_enabled (objects w a) r
      then Some (release a (on_read E a r w)) else None)"
| "exec_event E (WriteEvent a r) w =
     (case write_pending (objects w a) of
        None \<Rightarrow> None
      | Some m \<Rightarrow>
          if \<not> (running w \<and> live w a) then None
          else case r of
                 None \<Rightarrow> Some (release a (on_write a None (put_wire a m w)))
               | Some (error, n) \<Rightarrow> Some (release a (on_write a (Some error) (put_wire a (take n m) w))))"

lemma exec_event_iff: "exec_event E ev w = Some w' \<longleftrightarrow> server_step E w ev w'"
proof (cases ev)
  case (WriteEvent a r)
  then show ?thesis
    by (cases r) (auto simp: written_step_iff write_failed_step_iff split: option.splits)
qed (auto simp: accept_step_iff read_step_iff)

inductive server_run :: "'j env \<Rightarrow> server \<Rightarrow> event list \<Rightarrow> server \<Rightarrow> bool" for E where
  run_nil: "server_run E w [] w"
| run_cons: "server_step E w ev v \<Longrightarrow> server_run E v evs w' \<Longrightarrow> server_run E w (ev # evs) w'"

inductive_simps server_run_Nil [simp]: "server_run E w [] w'"
inductive_simps server_run_Cons: "server_run E w (ev # evs) w'"

fun exec_events :: "'j env \<Rightarrow> event list \<Rightarrow> server \<Rightarrow> server option" where
  "exec_events E [] w = Some w"
| "exec_events E (ev # evs) w = (case exec_event E ev w of None \<Rightarrow> None | Some v \<Rightarrow> exec_events E evs v)"

lemma exec_events_iff: "exec_events E evs w = Some w' \<longleftrightarrow> server_run E w evs w'"
  by (induction evs arbitrary: w)
    (auto simp: server_run_Cons exec_event_iff [symmetric] split: option.splits)

text \<open>The server as \<open>main\<close> starts it, and the states it can get into.\<close>

definition started :: server where
  "started = AcceptNext (emit Listening initial_server)"

definition reachable :: "'j env \<Rightarrow> server \<Rightarrow> bool" where
  "reachable E w \<longleftrightarrow> (\<exists>evs. server_run E started evs w)"

text \<open>
  \<open>main\<close>: a failed start is the exit code \<open>EXIT_FAILURE\<close>; otherwise the event loop runs the
  events (\<open>None\<close> when one of them cannot happen). It stops by itself only on an exception. The
  two lines \<open>main\<close> prints itself are left out.
\<close>

definition server_main :: "'j env \<Rightarrow> start_errors \<Rightarrow> event list \<Rightarrow> int + server option" where
  "server_main E errs evs =
     (case Start_server errs initial_server of
        (start_ok, w) \<Rightarrow> if \<not> start_ok then Inl exit_failure else Inr (exec_events E evs w))"

lemma server_run_append:
  "server_run E u (evs @ evs') w \<longleftrightarrow> (\<exists>v. server_run E u evs v \<and> server_run E v evs' w)"
  by (induction evs arbitrary: u) (auto simp: server_run_Cons)

lemma reachable_step: "reachable E w \<Longrightarrow> server_step E w ev w' \<Longrightarrow> reachable E w'"
  unfolding reachable_def by (metis server_run_append server_run_Cons server_run_Nil)

lemma reachable_run: "reachable E w \<Longrightarrow> server_run E w evs w' \<Longrightarrow> reachable E w'"
  unfolding reachable_def by (metis server_run_append)

lemma reachable_induct [consumes 1, case_names started step]:
  assumes "reachable E w" and "P started"
    and "\<And>v ev w. reachable E v \<Longrightarrow> P v \<Longrightarrow> server_step E v ev w \<Longrightarrow> P w"
  shows "P w"
proof -
  have "server_run E v evs w \<Longrightarrow> reachable E v \<Longrightarrow> P v \<Longrightarrow> P w" for v evs
    by (induction rule: server_run.induct) (auto intro: assms(3) reachable_step)
  moreover obtain evs where "server_run E started evs w" using assms(1) by (auto simp: reachable_def)
  moreover have "reachable E started" unfolding reachable_def by (rule exI [of _ "[]"]) simp
  ultimately show ?thesis using assms(2) by blast
qed

subsection \<open>The invariant of the event loop\<close>

definition session_quiet :: "session \<Rightarrow> bool" where
  "session_quiet s \<longleftrightarrow>
     (\<not> session_closed s \<longrightarrow> read_pending s) \<and> (session_closed s \<longrightarrow> role s \<noteq> []) \<and>
     (read_pending s \<or> write_pending s \<noteq> None)"

definition addresses_ok :: "server \<Rightarrow> bool" where
  "addresses_ok w \<longleftrightarrow>
     (\<forall>b. live w b \<longrightarrow> b < next_addr w) \<and>
     (\<forall>b. node_a (registry w) = Some b \<or> node_b (registry w) = Some b \<longrightarrow> b < next_addr w)"

definition server_inv :: "server \<Rightarrow> bool" where
  "server_inv w \<longleftrightarrow> core w \<and> addresses_ok w \<and> (\<forall>b. live w b \<longrightarrow> session_quiet (objects w b))"

lemma server_invD:
  assumes "server_inv w"
  shows "core w" "addresses_ok w" "live w b \<Longrightarrow> session_quiet (objects w b)"
  using assms by (simp_all add: server_inv_def)

lemma release_inv:
  assumes "core v" and "addresses_ok v"
    and "\<And>b. b \<noteq> a \<Longrightarrow> live v b \<Longrightarrow> session_quiet (objects v b)"
    and "read_pending (objects v a) \<or> write_pending (objects v a) \<noteq> None \<Longrightarrow> live v a \<Longrightarrow> session_quiet (objects v a)"
  shows "server_inv (release a v)"
proof (cases "read_pending (objects v a) \<or> write_pending (objects v a) \<noteq> None")
  case True
  then have "session_quiet (objects v b)" if "live v b" for b
    using that assms(3,4) by (cases "b = a") auto
  then show ?thesis using True assms(1,2) by (simp add: release_def server_inv_def)
next
  case False
  then show ?thesis using assms(1-3)
    by (auto simp: release_def server_inv_def core_def registry_ok_def queues_ok_def addresses_ok_def)
qed

lemma addresses_ok_simps [simp]:
  "addresses_ok (emit d w) = addresses_ok w" "addresses_ok (upd a f w) = addresses_ok w"
  "addresses_ok (put_wire a m w) = addresses_ok w"
  by (simp_all add: addresses_ok_def put_wire_def)

lemma put_wire_simps [simp]:
  "objects (put_wire a m w) = objects w" "live (put_wire a m w) = live w"
  "registry (put_wire a m w) = registry w" "core (put_wire a m w) = core w"
  "wire (put_wire a m w) = (wire w)(a := wire w a @ m)" "next_addr (put_wire a m w) = next_addr w"
  "running (put_wire a m w) = running w" "accept_pending (put_wire a m w) = accept_pending w"
  by (simp_all add: put_wire_def core_def registry_ok_def queues_ok_def)

lemma core_Close: "core w \<Longrightarrow> live w a \<Longrightarrow> core (Close a w)"
proof -
  assume c: "core w" and a: "live w a"
  have ok: "session_ok (objects w a)" using coreD(1) [OF c a] .
  show ?thesis
  proof (cases "session_closed (objects w a)")
    case False
    then have "registry_ok (Close a w)" using c a ok
      by (intro registry_ok_Close) (simp_all add: core_def session_ok_def)
    then show ?thesis using c ok False Close_open [of w a]
      by (auto simp: core_def session_ok_def queues_ok_def)
  qed (simp add: Close_closed c)
qed

lemma addresses_ok_Close: "addresses_ok w \<Longrightarrow> has_server_state (objects w a) \<Longrightarrow> addresses_ok (Close a w)"
  using Close_open [of w a] Close_closed [of w a]
  by (cases "session_closed (objects w a)") (auto simp: addresses_ok_def RemoveSession_def Let_def)

lemma registry_unchanged [simp]:
  "registry (HandleAccelPacket E a json w) = registry w" "registry (HandleModulePacket E a json w) = registry w"
  by (auto simp: HandleAccelPacket_def HandleModulePacket_def ForwardAccelPacketToNodeB_def
      ForwardAccelModuleToNodeA_def SendJson_enqueue Let_def split: Result.splits option.splits)

lemma registry_RegisterRole:
  "node_a (registry (RegisterRole a r w)) \<in> {node_a (registry w), Some a} \<and>
   node_b (registry (RegisterRole a r w)) \<in> {node_b (registry w), Some a}"
  by (auto simp: RegisterRole_def SetNodeA_def SetNodeB_def Let_def)

lemma registry_HandleLine:
  "node_a (registry (HandleLine E a line w)) \<in> {node_a (registry w), Some a} \<and>
   node_b (registry (HandleLine E a line w)) \<in> {node_b (registry w), Some a}"
  using registry_RegisterRole [of a _ "emit _ w"] by (auto simp: HandleLine_def split: Result.splits)

lemma addresses_ok_HandleLine:
  assumes "addresses_ok w" and "queues_ok w" and "live w a" shows "addresses_ok (HandleLine E a line w)"
proof -
  note e = extends_HandleLine [OF assms(2), of E a line]
  show ?thesis using assms(1,3) registry_HandleLine [of E a line w] extendsD(1,2) [OF e]
    by (auto simp: addresses_ok_def)
qed

lemma inv_on_accept: "server_inv w \<Longrightarrow> server_inv (on_accept r w)"
proof -
  assume i: "server_inv w"
  note inv = i [unfolded server_inv_def core_def registry_ok_def queues_ok_def addresses_ok_def]
  have "session_ok new_session" "session_ok (new_session\<lparr>read_pending := True\<rparr>)"
    "session_quiet (new_session\<lparr>read_pending := True\<rparr>)"
    by (simp_all add: session_ok_def session_quiet_def new_session_def)
  moreover have "role new_session = []" "\<not> session_closed new_session" "write_pending new_session = None"
    by (simp_all add: new_session_def)
  moreover have "node_a (registry w) \<noteq> Some (next_addr w)" "node_b (registry w) \<noteq> Some (next_addr w)"
    using inv by auto
  ultimately show ?thesis using inv
    by (auto simp: on_accept_def Let_def create_session_def AcceptNext_def Start_session_def ReadNextLine_def
        server_inv_def core_def registry_ok_def queues_ok_def addresses_ok_def less_Suc_eq
        split: accept_completion.splits option.splits prod.splits)
qed

lemma inv_on_read:
  assumes "server_inv w" and "live w a" and "read_pending (objects w a)"
  shows "server_inv (release a (on_read E a r w))"
proof -
  note c = server_invD(1) [OF assms(1)] and ad = server_invD(2) [OF assms(1)] and q = server_invD(3) [OF assms(1)]
  have ok: "session_ok (objects w a)" using coreD(1) [OF c assms(2)] .
  have qa: "session_closed (objects w a) \<longrightarrow> role (objects w a) \<noteq> []"
    using q [OF assms(2)] by (simp add: session_quiet_def)
  define w0 where "w0 = upd a (\<lambda>s. s\<lparr>read_pending := False\<rparr>) w"
  have c0: "core w0" unfolding w0_def by (rule core_counters [OF c])
  show ?thesis
  proof (cases r)
    case (ReadFail error)
    define d where "d = (case error of Eof \<Rightarrow> ClientDisconnected | OtherError m \<Rightarrow> ReadError m)"
    have eq: "on_read E a r w = Close a (emit d w0)"
      by (simp add: on_read_def ReadFail w0_def d_def Let_def)
    have objs: "objects (Close a (emit d w0)) b = objects w b" if "b \<noteq> a" for b
      using that by (simp add: Close_def w0_def Let_def)
    have objsa: "objects (Close a (emit d w0)) a =
        (objects w a)\<lparr>read_pending := False, session_closed := True, socket_open := False\<rparr>"
      using ok by (auto simp: Close_def w0_def Let_def session_ok_def)
    have l: "live (Close a (emit d w0)) = live w" by (simp add: Close_def w0_def Let_def)
    show ?thesis unfolding eq
    proof (rule release_inv)
      show "core (Close a (emit d w0))" using c0 assms(2) by (intro core_Close) (simp_all add: w0_def)
      show "addresses_ok (Close a (emit d w0))"
        using ad ok by (intro addresses_ok_Close) (simp_all add: w0_def session_ok_def)
      show "\<And>b. b \<noteq> a \<Longrightarrow> live (Close a (emit d w0)) b \<Longrightarrow> session_quiet (objects (Close a (emit d w0)) b)"
        using q by (simp add: objs l)
    next
      assume "read_pending (objects (Close a (emit d w0)) a) \<or> write_pending (objects (Close a (emit d w0)) a) \<noteq> None"
      then show "session_quiet (objects (Close a (emit d w0)) a)"
        using ok by (auto simp: objsa session_quiet_def session_ok_def)
    qed
  next
    case (ReadData chunk)
    obtain line rest where g: "getline (buffer (objects w a) @ chunk) = (line, rest)" by fastforce
    define w1 where "w1 = upd a (\<lambda>s. s\<lparr>buffer := rest\<rparr>) w0"
    define w2 where "w2 = HandleLine E a (strip_cr line) w1"
    have eq: "on_read E a r w = (if session_closed (objects w2 a) then w2 else upd a (\<lambda>s. s\<lparr>read_pending := True\<rparr>) w2)"
      by (simp add: on_read_def ReadData w0_def g w1_def w2_def Let_def ReadNextLine_def)
    have c1: "core w1" unfolding w1_def by (rule core_counters [OF c0])
    have l1: "live w1 a" using assms(2) by (simp add: w1_def w0_def)
    note e = extends_HandleLine [OF core_queues [OF c1], of E a "strip_cr line", folded w2_def]
    note ext = extendsD [OF e]
    have c2: "core w2" unfolding w2_def
      using qa by (intro core_HandleLine c1 l1) (simp_all add: w1_def w0_def, blast)
    have ad2: "addresses_ok w2" unfolding w2_def
      using ad by (intro addresses_ok_HandleLine core_queues c1 l1) (simp add: w1_def w0_def)
    have q2: "session_quiet (objects w2 b)" if "b \<noteq> a" "live w2 b" for b
    proof -
      have "session_quiet (objects w b)" "objects w1 b = objects w b"
        using q that by (simp_all add: ext(1) w1_def w0_def)
      then show ?thesis using ext(9,10) [of b] ext(11) [of b] ext(12) [of b]
        by (auto simp: session_quiet_def)
    qed
    have r2: "session_closed (objects w2 a) \<longrightarrow> role (objects w2 a) \<noteq> []"
      using qa ext(9) [of a] ext(11) [of a] by (auto simp: w1_def w0_def)
    show ?thesis unfolding eq
    proof (rule release_inv)
      show "core (if session_closed (objects w2 a) then w2 else upd a (\<lambda>s. s\<lparr>read_pending := True\<rparr>) w2)"
        using c2 core_counters(4) [OF c2] by simp
    qed (use ad2 q2 r2 in \<open>auto simp: session_quiet_def split: if_splits\<close>)
  qed
qed

lemma on_write_success:
  "on_write a None w =
     upd a (\<lambda>s. s\<lparr>write_queue := tl (write_queue s),
        write_pending := (if \<not> session_closed s \<and> tl (write_queue s) \<noteq> [] then Some (hd (tl (write_queue s))) else None)\<rparr>) w"
  by (auto simp: on_write_def Let_def WriteNextMessage_def intro!: upd_cong)

lemma inv_on_write_success:
  assumes "server_inv w" and "live w a" and "write_pending (objects w a) = Some m"
  shows "server_inv (release a (on_write a None (put_wire a m w)))"
proof -
  note c = server_invD(1) [OF assms(1)] and ad = server_invD(2) [OF assms(1)] and q = server_invD(3) [OF assms(1)]
  have ok: "session_ok (objects w a)" using coreD(1) [OF c assms(2)] .
  then obtain q' where q': "write_queue (objects w a) = m # q'"
    using assms(3) by (auto simp: session_ok_def)
  have "core (on_write a None (put_wire a m w))" unfolding on_write_success
    using c ok assms(2,3) q' by (intro core_upd; cases q') (auto simp: session_ok_def)
  then show ?thesis
    using ad q assms(2) by (intro release_inv) (auto simp: on_write_success session_quiet_def)
qed

lemma inv_on_write_failure:
  assumes "server_inv w" and "live w a" and "write_pending (objects w a) = Some m"
  shows "server_inv (release a (on_write a (Some e) (put_wire a n w)))"
proof -
  note c = server_invD(1) [OF assms(1)] and ad = server_invD(2) [OF assms(1)] and q = server_invD(3) [OF assms(1)]
  have ok: "session_ok (objects w a)" using coreD(1) [OF c assms(2)] .
  have r: "role (objects w a) \<noteq> []" using ok assms(3) by (auto simp: session_ok_def)
  define v where "v = upd a (\<lambda>s. s\<lparr>write_pending := None, write_queue := []\<rparr>) (emit (WriteError e) (put_wire a n w))"
  have eq: "on_write a (Some e) (put_wire a n w) = Close a v"
    by (simp add: on_write_def v_def Let_def) (simp add: upd_def emit_def)
  have cv: "core v" unfolding v_def
    using c by (intro core_upd) (auto simp: session_ok_def)
  have objs: "objects (Close a v) b = objects w b" if "b \<noteq> a" for b
    using that by (simp add: Close_def v_def Let_def)
  have objsa: "objects (Close a v) a = (objects w a)\<lparr>write_pending := None, write_queue := [],
      session_closed := True, socket_open := False\<rparr>"
    using ok by (auto simp: Close_def v_def Let_def session_ok_def)
  have l: "live (Close a v) = live w" by (simp add: Close_def v_def Let_def)
  show ?thesis unfolding eq
  proof (rule release_inv)
    show "core (Close a v)" using cv assms(2) by (intro core_Close) (simp_all add: v_def)
    show "addresses_ok (Close a v)" using ad ok by (intro addresses_ok_Close) (simp_all add: v_def session_ok_def)
  qed (use q r in \<open>auto simp: objs objsa l session_quiet_def\<close>)
qed

lemma server_step_inv: "server_step E w ev w' \<Longrightarrow> server_inv w \<Longrightarrow> server_inv w'"
  by (induction rule: server_step.induct)
    (auto intro: inv_on_accept inv_on_read inv_on_write_success inv_on_write_failure)

lemma started_inv: "server_inv started"
  by (simp add: server_inv_def core_def registry_ok_def queues_ok_def addresses_ok_def started_def
      AcceptNext_def initial_server_def empty_registry_def new_session_def)

lemma reachable_inv: "reachable E w \<Longrightarrow> server_inv w"
  by (induction rule: reachable_induct) (auto intro: started_inv server_step_inv)

lemma server_run_inv: "server_run E w evs w' \<Longrightarrow> server_inv w \<Longrightarrow> server_inv w'"
  by (induction rule: server_run.induct) (auto intro: server_step_inv)

end
