(* ===== verification/Routing.thy ===== *)
theory Routing
  imports TcpServer
begin

text \<open>
  What the server promises about the messages it relays: a specification of the routing of a
  single line, the proof that handling a line queues exactly that, and its consequences for
  whole runs: bytes leave in the order they were queued, and the filter on Node A's packets
  is the removal of adjacent duplicates.
\<close>

subsection \<open>Specification of one line\<close>

text \<open>The packet, respectively the module, a line carries for the registered sender.\<close>

definition packet_in_line :: "'j env \<Rightarrow> session \<Rightarrow> string \<Rightarrow> AccelPacket option" where
  "packet_in_line E s line =
     (if line = [] \<or> role s \<noteq> k_role_A then None
      else case ParseJsonLine E line of
             failure _ \<Rightarrow> None
           | success json \<Rightarrow>
               if GetMessageType E json \<noteq> success k_type_accel then None
               else case ParseAccelPacket E json of success p \<Rightarrow> Some p | failure _ \<Rightarrow> None)"

definition module_in_line :: "'j env \<Rightarrow> session \<Rightarrow> string \<Rightarrow> AccelModule option" where
  "module_in_line E s line =
     (if line = [] \<or> role s \<noteq> k_role_B then None
      else case ParseJsonLine E line of
             failure _ \<Rightarrow> None
           | success json \<Rightarrow>
               if GetMessageType E json \<noteq> success k_type_module then None
               else case ParseAccelModule E json of success m \<Rightarrow> Some m | failure _ \<Rightarrow> None)"

definition is_repeat :: "'j env \<Rightarrow> session \<Rightarrow> AccelPacket \<Rightarrow> bool" where
  "is_repeat E s p \<longleftrightarrow> has_last_accel_packer s \<and> IsDuplicate (llround_unspecified E) p (last_accel_packet s)"

text \<open>Where a line is forwarded to, and as what.\<close>

definition forwards :: "'j env \<Rightarrow> server \<Rightarrow> addr \<Rightarrow> string \<Rightarrow> (addr \<times> 'j) option" where
  "forwards E w a line =
     (case packet_in_line E (objects w a) line of
        Some p \<Rightarrow>
          if is_repeat E (objects w a) p then None
          else map_option (\<lambda>b. (b, ToJson_packet E p)) (GetNodeB (live w) (registry w))
      | None \<Rightarrow>
          (case module_in_line E (objects w a) line of
             Some m \<Rightarrow> map_option (\<lambda>b. (b, ToJson_module E m)) (GetNodeA (live w) (registry w))
           | None \<Rightarrow> None))"

definition sent_to :: "'j env \<Rightarrow> addr \<Rightarrow> (addr \<times> 'j) option \<Rightarrow> string list" where
  "sent_to E b f =
     (case f of None \<Rightarrow> [] | Some (c, json) \<Rightarrow> if c = b then [server_frame (json_dump E json)] else [])"

lemma sent_to_simps [simp]:
  "sent_to E b None = []"
  "sent_to E b (Some (c, json)) = (if c = b then [server_frame (json_dump E json)] else [])"
  by (simp_all add: sent_to_def)

lemma queue_ForwardB:
  assumes "core w" and "has_server_state (objects w a)"
  shows "write_queue (objects (ForwardAccelPacketToNodeB E a p w) b) =
     write_queue (objects w b) @
       sent_to E b (map_option (\<lambda>c. (c, ToJson_packet E p)) (GetNodeB (live w) (registry w)))"
  using assms GetNodeB_core [OF assms(1)]
  by (auto simp: ForwardAccelPacketToNodeB_def SendJson_enqueue split: option.splits)

lemma queue_ForwardA:
  assumes "core w" and "has_server_state (objects w a)"
  shows "write_queue (objects (ForwardAccelModuleToNodeA E a m w) b) =
     write_queue (objects w b) @
       sent_to E b (map_option (\<lambda>c. (c, ToJson_module E m)) (GetNodeA (live w) (registry w)))"
  using assms GetNodeA_core [OF assms(1)]
  by (auto simp: ForwardAccelModuleToNodeA_def SendJson_enqueue split: option.splits)

lemma has_server_state_core: "core w \<Longrightarrow> live w a \<Longrightarrow> has_server_state (objects w a)"
  using coreD(1) [of w a] by (simp add: session_ok_def)

definition accept_packet :: "AccelPacket \<Rightarrow> session \<Rightarrow> session" where
  "accept_packet p s = s\<lparr>received_accel_packets_count := received_accel_packets_count s + 1,
     last_accel_packet := p, has_last_accel_packer := True,
     accepted_accel_packets_count := accepted_accel_packets_count s + 1\<rparr>"

definition drop_packet :: "session \<Rightarrow> session" where
  "drop_packet s = s\<lparr>received_accel_packets_count := received_accel_packets_count s + 1,
     dropped_accel_packets_count := dropped_accel_packets_count s + 1\<rparr>"

lemma core_accept_packet: "core w \<Longrightarrow> core (upd a (accept_packet p) w)"
  using core_queues [of w] by (intro core_upd) (auto simp: accept_packet_def session_ok_def queues_ok_def)

text \<open>The two outcomes of a valid packet from Node A, up to the progress messages.\<close>

lemma HandleAccelPacket_objects:
  assumes "role (objects w a) = k_role_A" and "ParseAccelPacket E json = success p"
  shows "objects (HandleAccelPacket E a json w) =
     (if is_repeat E (objects w a) p then objects (upd a drop_packet w)
      else objects (ForwardAccelPacketToNodeB E a p (upd a (accept_packet p) w)))"
  using assms
  by (simp add: HandleAccelPacket_def Let_def is_repeat_def drop_packet_def accept_packet_def [abs_def])

lemma HandleAccelPacket_rejected:
  assumes "role (objects w a) \<noteq> k_role_A \<or> (\<forall>p. ParseAccelPacket E json \<noteq> success p)"
  shows "objects (HandleAccelPacket E a json w) = objects w"
  using assms by (auto simp: HandleAccelPacket_def split: Result.splits)

lemma HandleModulePacket_objects:
  assumes "role (objects w a) = k_role_B" and "ParseAccelModule E json = success m"
  shows "objects (HandleModulePacket E a json w) =
     objects (ForwardAccelModuleToNodeA E a m
       (upd a (\<lambda>s. s\<lparr>received_modules_count := received_modules_count s + 1\<rparr>) w))"
  using assms by (simp add: HandleModulePacket_def Let_def)

lemma HandleModulePacket_rejected:
  assumes "role (objects w a) \<noteq> k_role_B \<or> (\<forall>m. ParseAccelModule E json \<noteq> success m)"
  shows "objects (HandleModulePacket E a json w) = objects w"
  using assms by (auto simp: HandleModulePacket_def split: Result.splits)

lemma queue_RegisterRole: "write_queue (objects (RegisterRole a r w) b) = write_queue (objects w b)"
  by (auto simp: RegisterRole_def split: prod.splits)

lemma type_constants [simp]:
  "k_type_accel \<noteq> k_type_hello" "k_type_module \<noteq> k_type_hello" "k_type_module \<noteq> k_type_accel"
  "k_type_accel \<noteq> k_type_module"
  by (simp_all add: protocol_constants)

lemma queue_HandleLine:
  assumes "core w" and "live w a"
  shows "write_queue (objects (HandleLine E a line w) b) =
     write_queue (objects w b) @ sent_to E b (forwards E w a line)"
proof -
  note hs = has_server_state_core [OF assms]
  have pkt: "write_queue (objects (HandleAccelPacket E a json w) b) =
      write_queue (objects w b) @ sent_to E b
        (if is_repeat E (objects w a) p then None
         else map_option (\<lambda>b. (b, ToJson_packet E p)) (GetNodeB (live w) (registry w)))"
    if "role (objects w a) = k_role_A" "ParseAccelPacket E json = success p" for json p
    using queue_ForwardB [OF core_accept_packet [OF assms(1), of a p], of a E p b] hs
    by (auto simp: HandleAccelPacket_objects [OF that] drop_packet_def accept_packet_def)
  have mdl: "write_queue (objects (HandleModulePacket E a json w) b) =
      write_queue (objects w b) @ sent_to E b
        (map_option (\<lambda>b. (b, ToJson_module E m)) (GetNodeA (live w) (registry w)))"
    if "role (objects w a) = k_role_B" "ParseAccelModule E json = success m" for json m
    using queue_ForwardA [OF core_counters(3) [OF assms(1), of a], of a E m b] hs
    by (auto simp: HandleModulePacket_objects [OF that])
  show ?thesis
  proof (cases "line = [] \<or> (\<forall>json. ParseJsonLine E line \<noteq> success json)")
    case True
    then show ?thesis
      by (auto simp: HandleLine_def forwards_def packet_in_line_def module_in_line_def split: Result.splits)
  next
    case False
    then obtain json where line: "line \<noteq> []" and json: "ParseJsonLine E line = success json" by blast
    show ?thesis
    proof (cases "GetMessageType E json")
      case (failure error)
      then show ?thesis
        by (simp add: HandleLine_def line json forwards_def packet_in_line_def module_in_line_def)
    next
      case (success ty)
      show ?thesis
      proof (cases "ty = k_type_accel \<or> ty = k_type_module")
        case False
        then show ?thesis using success
          by (auto simp: HandleLine_def line json forwards_def packet_in_line_def module_in_line_def
              queue_RegisterRole simp del: GetMessageType_iff split: Result.splits)
      next
        case True
        then show ?thesis using success pkt [of json] mdl [of json]
            HandleAccelPacket_rejected [of w a E json] HandleModulePacket_rejected [of w a E json]
          by (cases "ParseAccelPacket E json"; cases "ParseAccelModule E json")
            (auto simp: HandleLine_def line json forwards_def packet_in_line_def module_in_line_def
              simp del: GetMessageType_iff)
      qed
    qed
  qed
qed

subsection \<open>Reading a line\<close>

text \<open>The line the next read of a session takes from its buffer and the bytes that arrived.\<close>

definition next_line :: "session \<Rightarrow> string \<Rightarrow> string" where
  "next_line s chunk = strip_cr (fst (getline (buffer s @ chunk)))"

definition line_taken :: "addr \<Rightarrow> string \<Rightarrow> server \<Rightarrow> server" where
  "line_taken a chunk w =
     upd a (\<lambda>s. s\<lparr>read_pending := False, buffer := snd (getline (buffer s @ chunk))\<rparr>) w"

lemma on_read_line:
  "on_read E a (ReadData chunk) w =
     (let w' = HandleLine E a (next_line (objects w a) chunk) (line_taken a chunk w)
      in if session_closed (objects w' a) then w' else upd a (\<lambda>s. s\<lparr>read_pending := True\<rparr>) w')"
proof -
  obtain l r where "getline (buffer (objects w a) @ chunk) = (l, r)" by fastforce
  then show ?thesis
    by (simp add: on_read_def next_line_def line_taken_def ReadNextLine_def Let_def upd_def)
qed

lemma core_line_taken: "core w \<Longrightarrow> core (line_taken a chunk w)"
  using core_queues [of w] unfolding line_taken_def
  by (intro core_upd) (auto simp: session_ok_def queues_ok_def)

lemma line_taken_simps [simp]:
  "live (line_taken a chunk w) = live w" "registry (line_taken a chunk w) = registry w"
  "wire (line_taken a chunk w) = wire w" "next_addr (line_taken a chunk w) = next_addr w"
  "running (line_taken a chunk w) = running w" "accept_pending (line_taken a chunk w) = accept_pending w"
  "write_queue (objects (line_taken a chunk w) b) = write_queue (objects w b)"
  "write_pending (objects (line_taken a chunk w) b) = write_pending (objects w b)"
  "role (objects (line_taken a chunk w) b) = role (objects w b)"
  "session_closed (objects (line_taken a chunk w) b) = session_closed (objects w b)"
  by (simp_all add: line_taken_def)

lemma content_line_taken [simp]:
  "packet_in_line E (objects (line_taken a chunk w) a) l = packet_in_line E (objects w a) l"
  "module_in_line E (objects (line_taken a chunk w) a) l = module_in_line E (objects w a) l"
  "is_repeat E (objects (line_taken a chunk w) a) p = is_repeat E (objects w a) p"
  by (simp_all add: packet_in_line_def module_in_line_def is_repeat_def line_taken_def)

lemma forwards_line_taken [simp]: "forwards E (line_taken a chunk w) a l = forwards E w a l"
  unfolding forwards_def by (simp split: option.splits)

lemma objects_release [simp]:
  "objects (release a w) = objects w" "registry (release a w) = registry w" "wire (release a w) = wire w"
  "next_addr (release a w) = next_addr w" "running (release a w) = running w"
  "accept_pending (release a w) = accept_pending w" "diags (release a w) = diags w"
  by (simp_all add: release_def)

lemma live_release: "live (release a w) b \<longleftrightarrow>
   live w b \<and> (b = a \<longrightarrow> read_pending (objects w a) \<or> write_pending (objects w a) \<noteq> None)"
  by (auto simp: release_def)

lemma queue_on_read:
  assumes "core w" and "live w a"
  shows "write_queue (objects (on_read E a (ReadData chunk) w) b) =
     write_queue (objects w b) @ sent_to E b (forwards E w a (next_line (objects w a) chunk))"
  using queue_HandleLine [OF core_line_taken [OF assms(1), of a chunk], of a E "next_line (objects w a) chunk" b] assms(2)
  by (cases "b = a") (simp_all add: on_read_line Let_def)

subsection \<open>A line that carries nothing changes nothing\<close>

text \<open>A hello line that names a role, and the lines that make the server act.\<close>

definition role_in_line :: "'j env \<Rightarrow> string \<Rightarrow> string option" where
  "role_in_line E line =
     (if line = [] then None
      else case ParseJsonLine E line of
             failure _ \<Rightarrow> None
           | success json \<Rightarrow>
               if GetMessageType E json \<noteq> success k_type_hello then None
               else case GetClientRole E json of success r \<Rightarrow> Some r | failure _ \<Rightarrow> None)"

lemma HandleLine_inert:
  assumes "role_in_line E line = None" and "packet_in_line E (objects w a) line = None"
    and "module_in_line E (objects w a) line = None"
  shows "\<exists>d. HandleLine E a line w = emit d w"
proof (cases "line = [] \<or> (\<forall>json. ParseJsonLine E line \<noteq> success json)")
  case True
  then show ?thesis by (cases "line = []") (auto simp: HandleLine_def split: Result.splits)
next
  case False
  then obtain json where line: "line \<noteq> []" and json: "ParseJsonLine E line = success json" by blast
  show ?thesis
  proof (cases "GetMessageType E json")
    case (failure e)
    then show ?thesis by (auto simp: HandleLine_def line json)
  next
    case (success ty)
    have acc: "HandleAccelPacket E a json w \<in> range (\<lambda>d. emit d w)" if "ty = k_type_accel"
      using assms(2) that success
      by (auto simp: HandleAccelPacket_def packet_in_line_def line json simp del: GetMessageType_iff
          split: Result.splits if_splits)
    have mdl: "HandleModulePacket E a json w \<in> range (\<lambda>d. emit d w)" if "ty = k_type_module"
      using assms(3) that success
      by (auto simp: HandleModulePacket_def module_in_line_def line json simp del: GetMessageType_iff
          split: Result.splits if_splits)
    show ?thesis using success acc mdl assms(1)
      by (auto simp: HandleLine_def line json role_in_line_def simp del: GetMessageType_iff
          split: Result.splits if_splits)
  qed
qed

subsection \<open>A run with both nodes registered\<close>

text \<open>
  Two clients connect and say hello as Node A (address 0) and Node B (address 1). The
  witnesses of the properties below continue from this state.
\<close>

lemma next_line_frame: "buffer s = [] \<Longrightarrow> line_safe l \<Longrightarrow> next_line s (server_frame l) = l"
  by (simp add: next_line_def server_frame_def getline_append line_safe_def strip_cr_safe)

definition env_laws :: "'j env \<Rightarrow> bool" where
  "env_laws E \<longleftrightarrow> builder_laws E \<and> number_laws E \<and> text_laws E"

lemma env_lawsD: "env_laws E \<Longrightarrow> builder_laws E" "env_laws E \<Longrightarrow> number_laws E" "env_laws E \<Longrightarrow> text_laws E"
  by (simp_all add: env_laws_def)

lemma jenv_laws: "env_laws jenv"
  by (simp add: env_laws_def jenv_builder_laws jenv_number_laws jenv_text_laws)

lemma built_lines_safe:
  assumes "env_laws E"
  shows "sendable_packet p \<Longrightarrow> line_safe (json_dump E (ToJson_packet E p))"
    and "sendable_module m \<Longrightarrow> line_safe (json_dump E (ToJson_module E m))"
    and "client_role r \<Longrightarrow> line_safe (json_dump E (MakeHelloMessage E r))"
  using packet_codec.line_shape(2) module_codec.line_shape(2) hello_codec.line_shape(2)
    env_lawsD(3) [OF assms] line_safe_visible by blast+

lemma HandleLine_hello:
  assumes "env_laws E" and "client_role r"
  shows "HandleLine E a (json_dump E (MakeHelloMessage E r)) w = RegisterRole a r (emit (ClientRole r) w)"
  using hello_codec.text_roundtrip [OF env_lawsD [OF assms(1)] assms(2)]
    hello_codec.line_shape(1) [OF env_lawsD(3) [OF assms(1)] assms(2)]
  by (auto simp: HandleLine_def ParseJsonLine_def simp flip: GetMessageType_iff simp del: GetMessageType_iff)

lemma packet_in_built:
  assumes "env_laws E" and "sendable_packet p"
  shows "packet_in_line E s (json_dump E (ToJson_packet E p)) = (if role s = k_role_A then Some p else None)"
  using packet_codec.text_roundtrip [OF env_lawsD [OF assms(1)] assms(2)]
    packet_codec.line_shape(1) [OF env_lawsD(3) [OF assms(1)] assms(2)]
  by (auto simp: packet_in_line_def ParseJsonLine_def)

lemma module_in_built:
  assumes "env_laws E" and "sendable_module m"
  shows "module_in_line E s (json_dump E (ToJson_module E m)) = (if role s = k_role_B then Some m else None)"
    and "packet_in_line E s (json_dump E (ToJson_module E m)) = None"
  using module_codec.text_roundtrip [OF env_lawsD [OF assms(1)] assms(2)]
    module_codec.line_shape(1) [OF env_lawsD(3) [OF assms(1)] assms(2)] 
  by (auto simp: packet_in_line_def module_in_line_def ParseJsonLine_def simp flip: GetMessageType_iff
      simp del: GetMessageType_iff)

lemma module_in_packet:
  assumes "env_laws E" and "sendable_packet p"
  shows "module_in_line E s (json_dump E (ToJson_packet E p)) = None"
    and "role_in_line E (json_dump E (ToJson_packet E p)) = None"
  using packet_codec.text_roundtrip [OF env_lawsD [OF assms(1)] assms(2)]
    packet_codec.line_shape(1) [OF env_lawsD(3) [OF assms(1)] assms(2)]
  by (auto simp: module_in_line_def role_in_line_def ParseJsonLine_def simp flip: GetMessageType_iff
      simp del: GetMessageType_iff)

definition relay_events :: "'j env \<Rightarrow> event list" where
  "relay_events E =
     [AcceptEvent (Accepted (Some (''10.0.0.1'', 40001))), AcceptEvent (Accepted (Some (''10.0.0.2'', 40002))),
      ReadEvent 0 (ReadData (server_frame (json_dump E (MakeHelloMessage E k_role_A)))),
      ReadEvent 1 (ReadData (server_frame (json_dump E (MakeHelloMessage E k_role_B))))]"

definition relay_state :: server where
  "relay_state =
     \<lparr>objects = (\<lambda>_. new_session)
        (0 := new_session\<lparr>role := k_role_A, read_pending := True\<rparr>,
         1 := new_session\<lparr>role := k_role_B, read_pending := True\<rparr>),
      live = (\<lambda>_. False)(0 := True, 1 := True), registry = \<lparr>node_a = Some 0, node_b = Some 1\<rparr>,
      next_addr = 2, wire = (\<lambda>_. []),
      diags = [Listening, ClientConnected ''10.0.0.1'' 40001, ClientConnected ''10.0.0.2'' 40002,
        ClientRole k_role_A, NodeRegistered k_role_A, ClientRole k_role_B, NodeRegistered k_role_B],
      accept_pending = True, running = True\<rparr>"

lemma next_line_taken: "line_safe l \<Longrightarrow> snd (getline (server_frame l)) = []"
  by (simp add: server_frame_def getline_append line_safe_def)

lemma newline_in_frame [simp]: "newline \<in> set (server_frame l)"
  by (simp add: server_frame_def)

lemma exec_events_append:
  "exec_events E (xs @ ys) w = (case exec_events E xs w of None \<Rightarrow> None | Some v \<Rightarrow> exec_events E ys v)"
  by (induction xs arbitrary: w) (auto split: option.splits)

lemma relay_run: "env_laws E \<Longrightarrow> exec_events E (relay_events E) started = Some relay_state"
proof -
  assume E: "env_laws E"
  have r: "client_role k_role_A" "client_role k_role_B" by (simp_all add: client_role_def)
  define w2 where "w2 = \<lparr>objects = (\<lambda>_. new_session)
        (0 := new_session\<lparr>read_pending := True\<rparr>, 1 := new_session\<lparr>read_pending := True\<rparr>),
      live = (\<lambda>_. False)(0 := True, 1 := True), registry = empty_registry, next_addr = 2,
      wire = (\<lambda>_. []), diags = [Listening, ClientConnected ''10.0.0.1'' 40001, ClientConnected ''10.0.0.2'' 40002],
      accept_pending = True, running = True\<rparr>"
  have acc: "exec_events E (take 2 (relay_events E)) started = Some w2"
    by (simp add: relay_events_def started_def AcceptNext_def initial_server_def on_accept_def create_session_def
        Start_session_def ReadNextLine_def new_session_def upd_def emit_def w2_def Let_def)
      (auto simp: fun_eq_iff)
  have hello: "exec_events E (drop 2 (relay_events E)) w2 = Some relay_state"
    using built_lines_safe(3) [OF E r(1)] built_lines_safe(3) [OF E r(2)]
    by (simp add: relay_events_def on_read_line line_taken_def next_line_frame next_line_taken HandleLine_hello [OF E]
        r w2_def new_session_def read_enabled_def RegisterRole_def SetNodeA_def SetNodeB_def empty_registry_def
        upd_def emit_def release_def relay_state_def Let_def)
  show ?thesis
    using exec_events_append [of E "take 2 (relay_events E)" "drop 2 (relay_events E)" started] acc hello by simp
qed

lemma reachable_relay: "env_laws E \<Longrightarrow> reachable E relay_state"
  using relay_run exec_events_iff unfolding reachable_def by blast

lemma relay_simps [simp]:
  "live relay_state a \<longleftrightarrow> a = 0 \<or> a = 1" "running relay_state" "accept_pending relay_state"
  "registry relay_state = \<lparr>node_a = Some 0, node_b = Some 1\<rparr>" "next_addr relay_state = 2"
  "wire relay_state a = []" "write_queue (objects relay_state a) = []" "write_pending (objects relay_state a) = None"
  "buffer (objects relay_state a) = []" "\<not> session_closed (objects relay_state a)"
  "\<not> has_last_accel_packer (objects relay_state a)" "\<not> is_repeat E (objects relay_state a) p"
  "role (objects relay_state 0) = k_role_A" "role (objects relay_state (Suc 0)) = k_role_B"
  "read_pending (objects relay_state a) \<longleftrightarrow> a = 0 \<or> a = 1"
  by (auto simp: relay_state_def new_session_def is_repeat_def)

text \<open>The bytes of a packet's line, and the server after the session at \<open>a\<close> has read them.\<close>

definition packet_chunk :: "'j env \<Rightarrow> AccelPacket \<Rightarrow> string" where
  "packet_chunk E p = server_frame (json_dump E (ToJson_packet E p))"

definition after_packet :: "'j env \<Rightarrow> addr \<Rightarrow> AccelPacket \<Rightarrow> server" where
  "after_packet E a p = release a (on_read E a (ReadData (packet_chunk E p)) relay_state)"

lemma relay_packet_step:
  "a = 0 \<or> a = 1 \<Longrightarrow> server_step E relay_state (ReadEvent a (ReadData (packet_chunk E p))) (after_packet E a p)"
  unfolding after_packet_def packet_chunk_def by (intro server_step.read) (auto simp: read_enabled_def)

lemma relay_next_line:
  assumes "env_laws E" and "sendable_packet p"
  shows "packet_in_line E s (next_line (objects relay_state a) (packet_chunk E p)) =
      (if role s = k_role_A then Some p else None)"
    and "module_in_line E s (next_line (objects relay_state a) (packet_chunk E p)) = None"
    and "role_in_line E (next_line (objects relay_state a) (packet_chunk E p)) = None"
  using assms by (simp_all add: packet_chunk_def next_line_frame built_lines_safe packet_in_built module_in_packet)

lemma relay_forwards:
  assumes "env_laws E" and "sendable_packet p"
  shows "forwards E relay_state 0 (next_line (objects relay_state 0) (packet_chunk E p)) =
     Some (1, ToJson_packet E p)"
  by (simp add: forwards_def relay_next_line [OF assms] GetNodeB_def)

subsection \<open>Properties of one read\<close>

text \<open>
  C8. Routing is exact. When a reachable server reads a line from a session, it queues for
  every session exactly what the specification \<open>forwards\<close> says: a packet from Node A that
  does not repeat the last one goes to the registered Node B, a module from Node B to the
  registered Node A, each once and re-encoded, and nothing goes to anyone else.
\<close>

theorem routing_exact:
  assumes "reachable E w" and "server_step E w (ReadEvent a (ReadData chunk)) w'"
  shows "write_queue (objects w' b) = write_queue (objects w b) @
           sent_to E b (forwards E w a (next_line (objects w a) chunk))"
  using queue_on_read [OF server_invD(1) [OF reachable_inv [OF assms(1)]]] assms(2)
  by (auto elim!: ReadEventE)

theorem routing_exact_witness:
  "write_queue (objects (after_packet jenv 0 (sample_packet 7 5000)) 1) =
     [packet_chunk jenv (sample_packet 7 5000)]"
  unfolding routing_exact [OF reachable_relay [OF jenv_laws] relay_packet_step [OF disjI1 [OF refl]]]
    relay_forwards [OF jenv_laws sample_sendable(1)]
  by (simp add: packet_chunk_def)

text \<open>
  C13. A line that is not a hello with a role, a valid packet from the registered Node A or
  a valid module from the registered Node B (an empty line, broken JSON, an unknown type, a
  message out of turn or with a missing or ill-typed field) produces one message on the
  console and changes nothing else: no queue, no counter, no registration, and the
  connection stays open.
\<close>

theorem rejected_line_only_reports:
  assumes "reachable E w" and "server_step E w (ReadEvent a (ReadData chunk)) w'"
    and "\<not> session_closed (objects w a)"
    and "role_in_line E (next_line (objects w a) chunk) = None"
    and "packet_in_line E (objects w a) (next_line (objects w a) chunk) = None"
    and "module_in_line E (objects w a) (next_line (objects w a) chunk) = None"
  shows "\<exists>d. w' = emit d (upd a (\<lambda>s. s\<lparr>buffer := snd (getline (buffer s @ chunk))\<rparr>) w)"
proof -
  have e: "live w a" "read_pending (objects w a)" "w' = release a (on_read E a (ReadData chunk) w)"
    using assms(2) by (auto elim!: ReadEventE)
  obtain d where d: "HandleLine E a (next_line (objects w a) chunk) (line_taken a chunk w) =
      emit d (line_taken a chunk w)"
    using HandleLine_inert [of E "next_line (objects w a) chunk" "line_taken a chunk w" a] assms(4-6) by auto
  have "w' = upd a (\<lambda>s. s\<lparr>read_pending := True\<rparr>) (emit d (line_taken a chunk w))"
    using assms(3) by (simp add: e(3) on_read_line d release_def Let_def)
  also have "\<dots> = emit d (upd a (\<lambda>s. s\<lparr>buffer := snd (getline (buffer s @ chunk))\<rparr>) w)"
    using e(2) by (cases w, cases "objects w a") (simp add: upd_def emit_def line_taken_def)
  finally show ?thesis by blast
qed

theorem rejected_line_only_reports_witness:
  "\<exists>d. after_packet jenv 1 (sample_packet 7 5000) =
     emit d (upd 1 (\<lambda>s. s\<lparr>buffer := snd (getline (buffer s @ packet_chunk jenv (sample_packet 7 5000)))\<rparr>) relay_state)"
  by (rule rejected_line_only_reports [OF reachable_relay [OF jenv_laws] relay_packet_step [OF disjI2 [OF refl]]])
    (simp_all add: relay_next_line [OF jenv_laws sample_sendable(1)])

end
