(* ===== verification/Streams.thy ===== *)
theory Streams
  imports Routing "HOL-Library.Sublist"
begin

text \<open>
  Whole runs of the server, seen from the peer of one session: what is queued for it, what is
  on the wire, and that the two agree in content and order. The argument is an invariant on
  runs, \<open>stream_ok\<close>, kept by every step of the event loop.
\<close>

subsection \<open>What is queued for a peer along a run\<close>

text \<open>
  \<open>outbox E b evs w\<close> lists, in order, the framed messages that the events \<open>evs\<close> make the
  server queue for the session \<open>b\<close>, as the specification \<open>forwards\<close> gives them.
\<close>

definition queued_by :: "'j env \<Rightarrow> addr \<Rightarrow> event \<Rightarrow> server \<Rightarrow> string list" where
  "queued_by E b ev w =
     (case ev of
        ReadEvent a (ReadData chunk) \<Rightarrow> sent_to E b (forwards E w a (next_line (objects w a) chunk))
      | _ \<Rightarrow> [])"

fun outbox :: "'j env \<Rightarrow> addr \<Rightarrow> event list \<Rightarrow> server \<Rightarrow> string list" where
  "outbox E b [] w = []"
| "outbox E b (ev # evs) w =
     queued_by E b ev w @ (case exec_event E ev w of None \<Rightarrow> [] | Some v \<Rightarrow> outbox E b evs v)"

lemma outbox_step: "server_step E w ev v \<Longrightarrow> outbox E b (ev # evs) w = queued_by E b ev w @ outbox E b evs v"
  by (simp add: exec_event_iff [symmetric] del: exec_event.simps)

text \<open>
  \<open>stream_ok q w b\<close>: of the bytes \<open>q\<close> queued for \<open>b\<close> so far, a prefix is on the wire; while
  the session is open, or a write is still under way, the rest is the write queue.
\<close>

definition stream_ok :: "string \<Rightarrow> server \<Rightarrow> addr \<Rightarrow> bool" where
  "stream_ok q w b \<longleftrightarrow>
     (\<exists>rest. q = wire w b @ rest \<and>
        (\<not> session_closed (objects w b) \<or> write_pending (objects w b) \<noteq> None \<longrightarrow>
           rest = concat (write_queue (objects w b))))"

text \<open>An address not given out yet has never been written to.\<close>

definition fresh_ok :: "server \<Rightarrow> bool" where
  "fresh_ok w \<longleftrightarrow> (\<forall>b. next_addr w \<le> b \<longrightarrow> wire w b = [] \<and> write_queue (objects w b) = [] \<and> \<not> session_closed (objects w b))"

lemma forwards_target:
  assumes "core w" and "forwards E w a line = Some (b, json)"
  shows "live w b" "\<not> session_closed (objects w b)" "role (objects w b) \<noteq> []"
  using assms GetNodeA_core [OF assms(1)] GetNodeB_core [OF assms(1)]
  by (auto simp: forwards_def split: option.splits if_splits)

lemma sent_to_open:
  assumes "core w" and "sent_to E b (forwards E w a line) \<noteq> []"
  shows "live w b" "\<not> session_closed (objects w b)"
  using assms
  by (auto simp: sent_to_def split: option.splits if_splits dest: forwards_target)

lemma wire_Close [simp]: "wire (Close a w) = wire w"
  by (simp add: Close_def Let_def)

lemma objects_Close:
  "objects (Close a w) = (if session_closed (objects w a) then objects w
     else (objects w)(a := (objects w a)\<lparr>session_closed := True, socket_open := False\<rparr>))"
  by (auto simp: Close_def Let_def fun_eq_iff)

lemma next_addr_Close [simp]: "next_addr (Close a w) = next_addr w"
  by (simp add: Close_def Let_def)


lemma stream_accept:
  assumes "server_inv w" and "fresh_ok w" and "stream_ok q w b"
  shows "stream_ok q (on_accept r w) b \<and> fresh_ok (on_accept r w)"
proof -
  have q: "q = []" if "b = next_addr w"
    using assms(2,3) that by (simp add: fresh_ok_def stream_ok_def new_session_def)
  show ?thesis
  proof (cases "\<exists>ad po. r = Accepted (Some (ad, po))")
    case True
    then show ?thesis using assms(2,3) q
      by (auto simp: on_accept_def stream_ok_def fresh_ok_def create_session_def AcceptNext_def
          Start_session_def ReadNextLine_def new_session_def Let_def)
  next
    case False
    then show ?thesis using assms(2,3)
      by (cases r) (auto simp: on_accept_def stream_ok_def fresh_ok_def AcceptNext_def Let_def split: option.splits)
  qed
qed

lemma live_below: "server_inv w \<Longrightarrow> live w a \<Longrightarrow> a < next_addr w"
  using server_invD(2) by (auto simp: addresses_ok_def)

lemma stream_read_failed:
  assumes "server_inv w" and "live w a" and "stream_ok q w b"
  shows "stream_ok q (on_read E a (ReadFail e) w) b"
  using assms(3) by (auto simp: on_read_def stream_ok_def objects_Close Let_def)

lemma stream_read:
  assumes "server_inv w" and "live w a" and "stream_ok q w b"
  shows "stream_ok (q @ concat (sent_to E b (forwards E w a (next_line (objects w a) chunk))))
           (on_read E a (ReadData chunk) w) b"
proof -
  define sent where "sent = sent_to E b (forwards E w a (next_line (objects w a) chunk))"
  define w' where "w' = on_read E a (ReadData chunk) w"
  note c = server_invD(1) [OF assms(1)]
  note e = extends_HandleLine [OF core_queues [OF core_line_taken [OF c, of a chunk]], of E a "next_line (objects w a) chunk"]
  have s: "wire w' = wire w" "session_closed (objects w' b) = session_closed (objects w b)"
    "session_closed (objects w b) \<longrightarrow> write_pending (objects w' b) = write_pending (objects w b)"
    using extendsD(3,9,14) [OF e] by (simp_all add: w'_def on_read_line Let_def)
  have q': "write_queue (objects w' b) = write_queue (objects w b) @ sent"
    unfolding w'_def sent_def by (rule queue_on_read [OF c assms(2)])
  have "sent = []" if "session_closed (objects w b)"
    using sent_to_open(2) [OF c] that unfolding sent_def by blast
  then show ?thesis using assms(3) s q'
    unfolding w'_def [symmetric] sent_def [symmetric] stream_ok_def by auto
qed

lemma fresh_on_read:
  assumes "server_inv w" and "fresh_ok w" and "live w a"
  shows "fresh_ok (on_read E a r w)"
proof (cases r)
  case (ReadFail e)
  then show ?thesis using assms(2) live_below [OF assms(1,3)]
    by (auto simp: on_read_def fresh_ok_def objects_Close Let_def)
next
  case (ReadData chunk)
  note c = server_invD(1) [OF assms(1)]
  note x = extendsD [OF extends_HandleLine [OF core_queues [OF core_line_taken [OF c, of a chunk]], of E a "next_line (objects w a) chunk"]]
  have "sent_to E b (forwards E w a (next_line (objects w a) chunk)) = []" if "next_addr w \<le> b" for b
    using sent_to_open(1) [OF c] live_below [OF assms(1)] that by (meson not_le)
  then show ?thesis using assms(2) queue_on_read [OF c assms(3), of E chunk] x(2,3,9)
    unfolding ReadData fresh_ok_def by (auto simp: on_read_line Let_def)
qed

lemma stream_written:
  assumes "server_inv w" and "live w a" and "write_pending (objects w a) = Some m" and "stream_ok q w b"
  shows "stream_ok q (on_write a None (put_wire a m w)) b"
proof -
  have ok: "session_ok (objects w a)" using coreD(1) [OF server_invD(1) [OF assms(1)] assms(2)] .
  then obtain q' where "write_queue (objects w a) = m # q'" using assms(3) by (auto simp: session_ok_def)
  then show ?thesis using assms(3,4)
    by (cases "b = a") (auto simp: on_write_success stream_ok_def)
qed

lemma stream_write_failed:
  assumes "server_inv w" and "live w a" and "write_pending (objects w a) = Some m" and "stream_ok q w b"
  shows "stream_ok q (on_write a (Some e) (put_wire a (take n m) w)) b"
proof -
  have ok: "session_ok (objects w a)" using coreD(1) [OF server_invD(1) [OF assms(1)] assms(2)] .
  then obtain q' where q': "write_queue (objects w a) = m # q'" using assms(3) by (auto simp: session_ok_def)
  have "\<exists>rest. q = wire w a @ take n m @ rest" if "b = a"
    using assms(3,4) q' that append_take_drop_id [of n m]
    by (auto simp: stream_ok_def intro!: exI [of _ "drop n m @ concat q'"] simp del: append_take_drop_id)
  then show ?thesis using assms(3,4)
    by (cases "b = a") (auto simp: on_write_def objects_Close stream_ok_def Let_def)
qed

lemma fresh_on_write:
  assumes "server_inv w" and "fresh_ok w" and "live w a"
  shows "fresh_ok (on_write a r (put_wire a m w))"
  using assms live_below [OF assms(1,3)]
  by (auto simp: on_write_def fresh_ok_def objects_Close WriteNextMessage_def Let_def split: option.splits)

lemma stream_release [simp]: "stream_ok q (release a w) b = stream_ok q w b" "fresh_ok (release a w) = fresh_ok w"
  by (simp_all add: stream_ok_def fresh_ok_def)

lemma stream_step:
  assumes "server_step E w ev w'" and "server_inv w" and "fresh_ok w" and "stream_ok q w b"
  shows "stream_ok (q @ concat (queued_by E b ev w)) w' b \<and> fresh_ok w'"
  using assms(1)
proof cases
  case (accept r)
  then show ?thesis using stream_accept [OF assms(2-4)] by (simp add: queued_by_def)
next
  case (read a r)
  then show ?thesis using stream_read [OF assms(2) _ assms(4), where E = E]
      stream_read_failed [OF assms(2) _ assms(4), where E = E] fresh_on_read [OF assms(2,3), where E = E]
    by (cases r) (simp_all add: queued_by_def)
next
  case (written a m)
  then show ?thesis using stream_written [OF assms(2) _ _ assms(4)] fresh_on_write [OF assms(2,3)]
    by (simp add: queued_by_def)
next
  case (write_failed a m error n)
  then show ?thesis using stream_write_failed [OF assms(2) _ _ assms(4)] fresh_on_write [OF assms(2,3)]
    by (simp add: queued_by_def)
qed

lemma stream_run:
  "server_run E w evs w' \<Longrightarrow> server_inv w \<Longrightarrow> fresh_ok w \<Longrightarrow> stream_ok q w b \<Longrightarrow>
   stream_ok (q @ concat (outbox E b evs w)) w' b"
proof (induction arbitrary: q rule: server_run.induct)
  case (run_cons w ev v evs w')
  note s = stream_step [OF run_cons.hyps(1) run_cons.prems]
  show ?case
    using run_cons.IH [OF server_step_inv [OF run_cons.hyps(1) run_cons.prems(1)]] s
    by (simp add: outbox_step [OF run_cons.hyps(1)] del: outbox.simps) (metis append_assoc)
qed simp

lemma started_stream: "fresh_ok started" "stream_ok [] started b"
  by (simp_all add: fresh_ok_def stream_ok_def started_def AcceptNext_def initial_server_def new_session_def)


subsection \<open>The message being written\<close>

lemma pending_head:
  assumes "server_inv w" and "live w b" and "write_pending (objects w b) = Some m"
  shows "\<exists>q. write_queue (objects w b) = m # q"
  using coreD(1) [OF server_invD(1) [OF assms(1)] assms(2)] assms(3) by (auto simp: session_ok_def)

lemma open_queue_pending:
  assumes "server_inv w" and "live w b" and "\<not> session_closed (objects w b)"
  shows "write_pending (objects w b) = (case write_queue (objects w b) of [] \<Rightarrow> None | m # _ \<Rightarrow> Some m)"
  using coreD(1) [OF server_invD(1) [OF assms(1)] assms(2)] assms(3)
  by (cases "write_pending (objects w b)") (auto simp: session_ok_def)

lemma pending_stable:
  assumes "server_inv w" and "live w b" and "write_pending (objects w b) = Some m"
    and "server_step E w ev w'" and "\<And>r. ev \<noteq> WriteEvent b r"
  shows "write_pending (objects w' b) = Some m \<and> (\<exists>more. write_queue (objects w' b) = write_queue (objects w b) @ more)"
  using assms(4)
proof cases
  case (accept r)
  have "b \<noteq> next_addr w" using live_below [OF assms(1,2)] by simp
  then show ?thesis using accept assms(3)
    by (auto simp: on_accept_def create_session_def AcceptNext_def Start_session_def ReadNextLine_def Let_def
        split: accept_completion.splits option.splits)
next
  case (read a r)
  show ?thesis
  proof (cases r)
    case (ReadFail e)
    then show ?thesis using read assms(3) by (cases "b = a") (simp_all add: on_read_def objects_Close Let_def)
  next
    case (ReadData chunk)
    note c = server_invD(1) [OF assms(1)]
    note e = extends_HandleLine [OF core_queues [OF core_line_taken [OF c, of a chunk]], of E a "next_line (objects w a) chunk"]
    show ?thesis using read ReadData assms(3) extendsD(12) [OF e] queue_on_read [OF c read(4), of E chunk b]
      by (cases "b = a") (simp_all add: on_read_line Let_def)
  qed
next
  case (written a n)
  then show ?thesis using assms(3,5) by (cases "a = b") (auto simp: on_write_success)
next
  case (write_failed a n error k)
  then show ?thesis using assms(3,5) by (cases "a = b") (auto simp: on_write_def objects_Close Let_def)
qed

subsection \<open>Flushing a queue\<close>

lemma write_one:
  assumes "server_inv w" and "running w" and "live w b" and "\<not> session_closed (objects w b)"
    and "write_queue (objects w b) = m # q"
  shows "\<exists>v. server_step E w (WriteEvent b None) v \<and> running v \<and> live v b \<and> \<not> session_closed (objects v b) \<and>
           write_queue (objects v b) = q \<and> wire v b = wire w b @ m"
proof -
  have p: "write_pending (objects w b) = Some m"
    using open_queue_pending [OF assms(1,3,4)] assms(5) by simp
  have r: "read_pending (objects w b)"
    using server_invD(3) [OF assms(1,3)] assms(4) by (simp add: session_quiet_def)
  show ?thesis
    by (rule exI, rule conjI, rule server_step.written [OF assms(2,3) p])
      (use assms r in \<open>simp add: on_write_success live_release\<close>)
qed

lemma flush:
  assumes "server_inv w" and "running w" and "live w b" and "\<not> session_closed (objects w b)"
  shows "\<exists>w'. server_run E w (replicate (length (write_queue (objects w b))) (WriteEvent b None)) w' \<and>
           write_queue (objects w' b) = [] \<and> wire w' b = wire w b @ concat (write_queue (objects w b)) \<and>
           \<not> session_closed (objects w' b) \<and> live w' b"
  using assms
proof (induction "write_queue (objects w b)" arbitrary: w)
  case Nil
  then show ?case by (intro exI [of _ w]) simp
next
  case (Cons m q)
  obtain v where v: "server_step E w (WriteEvent b None) v" "running v" "live v b" "\<not> session_closed (objects v b)"
    "write_queue (objects v b) = q" "wire v b = wire w b @ m"
    using write_one [OF Cons.prems Cons.hyps(2) [symmetric]] by blast
  obtain w' where "server_run E v (replicate (length q) (WriteEvent b None)) w'" "write_queue (objects w' b) = []"
    "wire w' b = wire v b @ concat q" "\<not> session_closed (objects w' b)" "live w' b"
    using Cons.hyps(1) [OF v(5) [symmetric] server_step_inv [OF v(1) Cons.prems(1)] v(2-4)] v(5) by auto
  then show ?case using v(1,6) Cons.hyps(2) [symmetric]
    by (intro exI [of _ w']) (auto simp: server_run_Cons)
qed

subsection \<open>A packet on its way\<close>

text \<open>The state after Node A's first packet, in the run the witnesses share.\<close>

lemma after_packet_reachable: "env_laws E \<Longrightarrow> a = 0 \<or> a = 1 \<Longrightarrow> reachable E (after_packet E a p)"
  using reachable_step [OF reachable_relay relay_packet_step] by blast

lemma after_packet_run:
  "env_laws E \<Longrightarrow> a = 0 \<or> a = 1 \<Longrightarrow>
   server_run E started (relay_events E @ [ReadEvent a (ReadData (packet_chunk E p))]) (after_packet E a p)"
  using relay_run [of E, unfolded exec_events_iff] relay_packet_step [of a E p]
  by (auto simp: server_run_append server_run_Cons)

lemma after_packet_queue:
  assumes "env_laws E" and "sendable_packet p"
  shows "write_queue (objects (after_packet E 0 p) 1) = [packet_chunk E p]"
  using queue_on_read [OF server_invD(1) [OF reachable_inv [OF reachable_relay [OF assms(1)]]],
      of 0 E "packet_chunk E p" 1]
  by (simp add: after_packet_def relay_forwards [OF assms] del: One_nat_def) (simp add: packet_chunk_def)

lemma after_packet_state:
  assumes "env_laws E"
  shows "live (after_packet E 0 p) 1" "running (after_packet E 0 p)" "accept_pending (after_packet E 0 p)"
    "\<not> session_closed (objects (after_packet E 0 p) b)" "wire (after_packet E 0 p) b = []"
proof -
  note c = server_invD(1) [OF reachable_inv [OF reachable_relay [OF assms]]]
  note x = extendsD(1,3,4,5,9) [OF extends_HandleLine [OF core_queues [OF core_line_taken [OF c, of 0 "packet_chunk E p"]],
        of E 0 "next_line (objects relay_state 0) (packet_chunk E p)"]]
  show "live (after_packet E 0 p) 1" "running (after_packet E 0 p)" "accept_pending (after_packet E 0 p)"
    "\<not> session_closed (objects (after_packet E 0 p) b)" "wire (after_packet E 0 p) b = []"
    using x by (simp_all add: after_packet_def on_read_line live_release Let_def)
qed

lemma after_packet_pending:
  assumes "env_laws E" and "sendable_packet p"
  shows "write_pending (objects (after_packet E 0 p) 1) = Some (packet_chunk E p)"
  using open_queue_pending [OF reachable_inv [OF after_packet_reachable [OF assms(1) disjI1 [OF refl], of p]]
      after_packet_state(1,4) [OF assms(1)]]
  by (simp add: after_packet_queue [OF assms] del: One_nat_def)

subsection \<open>Properties of the streams\<close>

text \<open>
  C6. Nothing is lost, repeated or reordered on the way out. Whatever the network does, the
  bytes a peer has been sent are a prefix of the messages queued for it, in the order they
  were queued; while its session is open, what is missing is exactly its write queue.
\<close>

theorem peer_stream:
  assumes "server_run E started evs w"
  shows "prefix (wire w b) (concat (outbox E b evs started)) \<and>
         (\<not> session_closed (objects w b) \<longrightarrow>
            wire w b @ concat (write_queue (objects w b)) = concat (outbox E b evs started))"
  using stream_run [OF assms started_inv started_stream, of b] by (auto simp: stream_ok_def prefix_def)

theorem peer_stream_witness:
  "concat (outbox jenv 1 (relay_events jenv @
       [ReadEvent 0 (ReadData (packet_chunk jenv (sample_packet 7 5000)))]) started) =
     packet_chunk jenv (sample_packet 7 5000)"
  using peer_stream [OF after_packet_run [OF jenv_laws disjI1 [OF refl], of "sample_packet 7 5000"], of 1]
    after_packet_state(4,5) [OF jenv_laws] after_packet_queue [OF jenv_laws sample_sendable(1)]
  by simp

text \<open>
  C16. The message handed to \<open>async_write\<close> is the front of the queue and stays there, with
  its bytes unchanged, until that write completes: whatever else the server does meanwhile
  only appends to the queue. So \<open>pop_front\<close> removes the message that was written.
\<close>

theorem message_in_flight_stays:
  assumes "reachable E w" and "live w b" and "write_pending (objects w b) = Some m"
    and "server_step E w ev w'" and "\<forall>r. ev \<noteq> WriteEvent b r"
  shows "(\<exists>q. write_queue (objects w b) = m # q) \<and> write_pending (objects w' b) = Some m \<and>
         (\<exists>more. write_queue (objects w' b) = write_queue (objects w b) @ more)"
  using pending_head [OF reachable_inv [OF assms(1)] assms(2,3)]
    pending_stable [OF reachable_inv [OF assms(1)] assms(2-4)] assms(5) by blast

theorem message_in_flight_stays_witness:
  "write_pending (objects (on_accept (AcceptFail ''busy'') (after_packet jenv 0 (sample_packet 7 5000))) 1) =
     Some (packet_chunk jenv (sample_packet 7 5000))"
  using message_in_flight_stays [OF after_packet_reachable [OF jenv_laws disjI1 [OF refl]]
      after_packet_state(1) [OF jenv_laws] after_packet_pending [OF jenv_laws sample_sendable(1)]
      server_step.accept [OF after_packet_state(2) [OF jenv_laws] after_packet_state(3) [OF jenv_laws]], of "AcceptFail ''busy''"]
  by simp

text \<open>
  C15. No queue stalls: in a reachable state, completing the writes of an open session, one
  per queued message, is possible, empties its queue and puts all of it on the wire.
\<close>

theorem queue_drains:
  assumes "reachable E w" and "running w" and "live w b" and "\<not> session_closed (objects w b)"
  shows "\<exists>w'. server_run E w (replicate (length (write_queue (objects w b))) (WriteEvent b None)) w' \<and>
           write_queue (objects w' b) = [] \<and> wire w' b = wire w b @ concat (write_queue (objects w b)) \<and>
           \<not> session_closed (objects w' b)"
  using flush [OF reachable_inv [OF assms(1)] assms(2-4)] by blast


theorem queue_drains_witness:
  "\<exists>w'. server_run jenv (after_packet jenv 0 (sample_packet 7 5000)) [WriteEvent 1 None] w' \<and>
     wire w' 1 = packet_chunk jenv (sample_packet 7 5000)"
  using queue_drains [OF after_packet_reachable [OF jenv_laws disjI1 [OF refl]]
      after_packet_state(2) [OF jenv_laws] after_packet_state(1) [OF jenv_laws] after_packet_state(4) [OF jenv_laws], of "sample_packet 7 5000"]
    after_packet_state(5) [OF jenv_laws] after_packet_queue [OF jenv_laws sample_sendable(1)]
  by auto

end
