(* ===== verification/DuplicateFilter.thy ===== *)
theory DuplicateFilter
  imports Streams
begin

text \<open>
  The duplicate filter of \<open>HandleAccelPacket\<close> over whole runs: what one session has
  received, accepted and dropped when any other sessions act in between.
\<close>

subsection \<open>Specification\<close>

text \<open>Keep an element unless it repeats the last one kept.\<close>

fun drop_repeats :: "('a \<Rightarrow> 'a \<Rightarrow> bool) \<Rightarrow> 'a option \<Rightarrow> 'a list \<Rightarrow> 'a list" where
  "drop_repeats dup kept [] = []"
| "drop_repeats dup kept (p # ps) =
     (case kept of
        Some q \<Rightarrow> if dup p q then drop_repeats dup kept ps else p # drop_repeats dup (Some p) ps
      | None \<Rightarrow> p # drop_repeats dup (Some p) ps)"

text \<open>For a test that compares keys this is the removal of adjacent repetitions.\<close>

lemma drop_repeats_Some:
  "map f (drop_repeats (\<lambda>p q. f p = f q) (Some q) ps) = tl (remdups_adj (f q # map f ps)) \<and>
   length (drop_repeats (\<lambda>p q. f p = f q) (Some q) ps) \<le> length ps"
proof (induction ps arbitrary: q)
  case (Cons p ps)
  show ?case using Cons.IH [of p] Cons.IH [of q]
    by (cases "f p = f q") (auto simp: remdups_adj_Cons' split: list.splits)
qed simp

lemma drop_repeats_remdups:
  "map f (drop_repeats (\<lambda>p q. f p = f q) None ps) = remdups_adj (map f ps)"
  using drop_repeats_Some [of f] by (cases ps) simp_all

lemma drop_repeats_length: "length (drop_repeats dup kept ps) \<le> length ps"
  by (induction ps arbitrary: kept) (auto split: option.splits simp: le_SucI)

subsection \<open>The filter's part of a session\<close>

definition last_kept :: "session \<Rightarrow> AccelPacket option" where
  "last_kept s = (if has_last_accel_packer s then Some (last_accel_packet s) else None)"

definition filter_view :: "session \<Rightarrow> AccelPacket option \<times> u64 \<times> u64 \<times> u64" where
  "filter_view s =
     (last_kept s, received_accel_packets_count s, accepted_accel_packets_count s, dropped_accel_packets_count s)"

definition filter_packet :: "'j env \<Rightarrow> AccelPacket option \<Rightarrow> session \<Rightarrow> session" where
  "filter_packet E found s =
     (case found of
        None \<Rightarrow> s
      | Some p \<Rightarrow> if is_repeat E s p then drop_packet s else accept_packet p s)"

lemma filter_view_enqueue [simp]: "filter_view (enqueue m s) = filter_view s"
  by (simp add: filter_view_def last_kept_def)

lemma filter_view_updates [simp]:
  "filter_view (s\<lparr>forwared_accel_packets_count := n\<rparr>) = filter_view s"
  "filter_view (s\<lparr>forwared_modules_count := n\<rparr>) = filter_view s"
  "filter_view (s\<lparr>received_modules_count := n\<rparr>) = filter_view s"
  "filter_view (s\<lparr>read_pending := r\<rparr>) = filter_view s"
  "filter_view (s\<lparr>write_pending := v\<rparr>) = filter_view s"
  "filter_view (s\<lparr>write_queue := q\<rparr>) = filter_view s"
  "filter_view (s\<lparr>session_closed := c\<rparr>) = filter_view s"
  "filter_view (s\<lparr>socket_open := c\<rparr>) = filter_view s"
  "filter_view (s\<lparr>buffer := bf\<rparr>) = filter_view s"
  "filter_view (s\<lparr>role := r'\<rparr>) = filter_view s"
  by (simp_all add: filter_view_def last_kept_def)

lemma filter_Forward [simp]:
  "filter_view (objects (ForwardAccelPacketToNodeB E a p w) b) = filter_view (objects w b)"
  "filter_view (objects (ForwardAccelModuleToNodeA E a m w) b) = filter_view (objects w b)"
  by (auto simp: ForwardAccelPacketToNodeB_def ForwardAccelModuleToNodeA_def SendJson_enqueue
      split: option.splits)

lemma filter_RegisterRole [simp]: "filter_view (objects (RegisterRole a r w) b) = filter_view (objects w b)"
  by (auto simp: RegisterRole_def split: prod.splits)

lemma filter_HandleModulePacket [simp]:
  "filter_view (objects (HandleModulePacket E a json w) b) = filter_view (objects w b)"
  by (auto simp: HandleModulePacket_def Let_def split: Result.splits)

lemma filter_HandleAccelPacket:
  assumes "role (objects w a) = k_role_A" and "ParseAccelPacket E json = success p"
  shows "filter_view (objects (HandleAccelPacket E a json w) b) =
     filter_view (if b = a then filter_packet E (Some p) (objects w a) else objects w b)"
  by (simp add: HandleAccelPacket_objects [OF assms] filter_packet_def)

lemma filter_HandleLine:
  "filter_view (objects (HandleLine E a line w) b) =
     filter_view (if b = a then filter_packet E (packet_in_line E (objects w a) line) (objects w a) else objects w b)"
proof (cases "packet_in_line E (objects w a) line")
  case (Some p)
  then obtain json where "line \<noteq> []" "role (objects w a) = k_role_A" "ParseJsonLine E line = success json"
      "GetMessageType E json = success k_type_accel" "ParseAccelPacket E json = success p"
    by (auto simp: packet_in_line_def simp del: GetMessageType_iff split: Result.splits if_splits)
  then show ?thesis
    by (simp add: HandleLine_def filter_HandleAccelPacket Some del: GetMessageType_iff)
next
  case None
  have "filter_view (objects (HandleAccelPacket E a json w) b) = filter_view (objects w b)"
    if "line \<noteq> []" "ParseJsonLine E line = success json" "GetMessageType E json = success k_type_accel" for json
    using None that HandleAccelPacket_rejected [of w a E json]
    by (auto simp: packet_in_line_def simp del: GetMessageType_iff split: Result.splits if_splits)
  then show ?thesis using None
    by (auto simp: HandleLine_def filter_packet_def simp del: GetMessageType_iff split: Result.splits)
qed


subsection \<open>Runs\<close>

definition packet_by :: "'j env \<Rightarrow> addr \<Rightarrow> event \<Rightarrow> server \<Rightarrow> AccelPacket option" where
  "packet_by E a ev w =
     (case ev of
        ReadEvent b (ReadData chunk) \<Rightarrow>
          if b = a then packet_in_line E (objects w a) (next_line (objects w a) chunk) else None
      | _ \<Rightarrow> None)"

text \<open>The valid packets the session at \<open>a\<close> reads as Node A, and those not dropped on arrival.\<close>

fun packets_received :: "'j env \<Rightarrow> addr \<Rightarrow> event list \<Rightarrow> server \<Rightarrow> AccelPacket list" where
  "packets_received E a [] w = []"
| "packets_received E a (ev # evs) w =
     (case packet_by E a ev w of None \<Rightarrow> [] | Some p \<Rightarrow> [p]) @
     (case exec_event E ev w of None \<Rightarrow> [] | Some v \<Rightarrow> packets_received E a evs v)"

fun packets_accepted :: "'j env \<Rightarrow> addr \<Rightarrow> event list \<Rightarrow> server \<Rightarrow> AccelPacket list" where
  "packets_accepted E a [] w = []"
| "packets_accepted E a (ev # evs) w =
     (case packet_by E a ev w of None \<Rightarrow> [] | Some p \<Rightarrow> if is_repeat E (objects w a) p then [] else [p]) @
     (case exec_event E ev w of None \<Rightarrow> [] | Some v \<Rightarrow> packets_accepted E a evs v)"

definition unused_ok :: "server \<Rightarrow> bool" where
  "unused_ok w \<longleftrightarrow> (\<forall>b. next_addr w \<le> b \<longrightarrow> filter_view (objects w b) = filter_view new_session)"

lemma filter_packet_None [simp]: "filter_packet E None s = s"
  by (simp add: filter_packet_def)

lemma filter_packet_taken:
  "filter_view (filter_packet E f (objects (line_taken a chunk w) a)) = filter_view (filter_packet E f (objects w a))"
  by (auto simp: filter_packet_def line_taken_def is_repeat_def filter_view_def last_kept_def drop_packet_def
      accept_packet_def split: option.splits)

lemma filter_taken: "filter_view (objects (line_taken a chunk w) b) = filter_view (objects w b)"
  by (simp add: line_taken_def filter_view_def last_kept_def)

lemma filter_on_read:
  "filter_view (objects (on_read E a (ReadData chunk) w) b) =
     filter_view (if b = a then filter_packet E (packet_in_line E (objects w a) (next_line (objects w a) chunk)) (objects w a)
       else objects w b)"
  using filter_HandleLine [of E a "next_line (objects w a) chunk" "line_taken a chunk w" b]
  by (cases "b = a") (simp_all add: on_read_line Let_def filter_packet_taken filter_taken)

lemma filter_step:
  assumes "server_step E w ev w'" and "server_inv w" and "unused_ok w"
  shows "filter_view (objects w' b) = filter_view (filter_packet E (packet_by E b ev w) (objects w b)) \<and> unused_ok w'"
  using assms(1)
proof cases
  case (accept r)
  then show ?thesis using assms(3)
    by (auto simp: packet_by_def unused_ok_def on_accept_def create_session_def AcceptNext_def Start_session_def
        ReadNextLine_def Let_def split: accept_completion.splits option.splits)
next
  case (read a r)
  have n: "a < next_addr w" using live_below [OF assms(2)] read by simp
  show ?thesis
  proof (cases r)
    case (ReadFail e)
    then show ?thesis using read n assms(3)
      by (auto simp: packet_by_def unused_ok_def on_read_def objects_Close Let_def)
  next
    case (ReadData chunk)
    have "next_addr (on_read E a (ReadData chunk) w) = next_addr w"
      using extendsD(2) [OF extends_HandleLine [OF core_queues [OF core_line_taken [OF server_invD(1) [OF assms(2)],
        of a chunk]], of E a "next_line (objects w a) chunk"]] by (simp add: on_read_line Let_def)
    then show ?thesis using read ReadData n assms(3)
      by (auto simp: packet_by_def unused_ok_def filter_on_read)
  qed
next
  case (written a m)
  then show ?thesis using live_below [OF assms(2)] assms(3)
    by (auto simp: packet_by_def unused_ok_def on_write_success)
next
  case (write_failed a m error n)
  then show ?thesis using live_below [OF assms(2)] assms(3)
    by (auto simp: packet_by_def unused_ok_def on_write_def objects_Close Let_def)
qed

text \<open>The filter's fields say what has happened to the packets \<open>ps\<close> received so far.\<close>

definition filter_ok :: "'j env \<Rightarrow> AccelPacket list \<Rightarrow> session \<Rightarrow> bool" where
  "filter_ok E ps s \<longleftrightarrow>
     (let kept = drop_repeats (IsDuplicate (llround_unspecified E)) None ps in
      filter_view s =
        (if kept = [] then None else Some (last kept), of_nat (length ps), of_nat (length kept),
         of_nat (length ps - length kept)))"

lemma drop_repeats_snoc:
  "drop_repeats dup k (ps @ [p]) = drop_repeats dup k ps @
     drop_repeats dup (if drop_repeats dup k ps = [] then k else Some (last (drop_repeats dup k ps))) [p]"
  by (induction ps arbitrary: k) (auto split: option.splits)

lemma filter_ok_packet:
  assumes "filter_ok E ps s"
  shows "filter_ok E (ps @ [p]) (filter_packet E (Some p) s) \<and>
     drop_repeats (IsDuplicate (llround_unspecified E)) None (ps @ [p]) =
       drop_repeats (IsDuplicate (llround_unspecified E)) None ps @ (if is_repeat E s p then [] else [p])"
proof -
  define d where "d = IsDuplicate (llround_unspecified E)"
  define kept where "kept = drop_repeats d None ps"
  have le: "length kept \<le> length ps" unfolding kept_def by (rule drop_repeats_length)
  have v: "last_kept s = (if kept = [] then None else Some (last kept))"
    "received_accel_packets_count s = of_nat (length ps)" "accepted_accel_packets_count s = of_nat (length kept)"
    "dropped_accel_packets_count s = of_nat (length ps - length kept)"
    using assms unfolding filter_ok_def Let_def filter_view_def d_def [symmetric] kept_def [symmetric] by simp_all
  have r: "is_repeat E s p \<longleftrightarrow> kept \<noteq> [] \<and> d p (last kept)"
    using v(1) by (auto simp: is_repeat_def last_kept_def d_def split: if_splits)
  have snoc: "drop_repeats d None (ps @ [p]) = kept @ (if is_repeat E s p then [] else [p])"
    by (simp add: drop_repeats_snoc [of d None ps p] r flip: kept_def)
  show ?thesis
    unfolding filter_ok_def Let_def d_def [symmetric] snoc kept_def [symmetric]
    using v le
    by (auto simp: filter_packet_def filter_view_def last_kept_def drop_packet_def accept_packet_def r Suc_diff_le
        split: if_splits)
qed

lemma filter_run:
  "server_run E w evs w' \<Longrightarrow> server_inv w \<Longrightarrow> unused_ok w \<Longrightarrow> filter_ok E ps (objects w a) \<Longrightarrow>
   filter_ok E (ps @ packets_received E a evs w) (objects w' a) \<and>
   drop_repeats (IsDuplicate (llround_unspecified E)) None (ps @ packets_received E a evs w) =
     drop_repeats (IsDuplicate (llround_unspecified E)) None ps @ packets_accepted E a evs w"
proof (induction arbitrary: ps rule: server_run.induct)
  case (run_cons w ev v evs w')
  note s = filter_step [OF run_cons.hyps(1) run_cons.prems(1,2), of a]
  note inv = server_step_inv [OF run_cons.hyps(1) run_cons.prems(1)]
  have ex: "exec_event E ev w = Some v" using run_cons.hyps(1) by (simp add: exec_event_iff)
  have same: "filter_ok E qs (objects v a) = filter_ok E qs (filter_packet E (packet_by E a ev w) (objects w a))" for qs
    using s by (simp add: filter_ok_def)
  show ?case
  proof (cases "packet_by E a ev w")
    case None
    then show ?thesis using run_cons.IH [OF inv, of ps] s same run_cons.prems(3)
      by (simp add: ex del: exec_event.simps)
  next
    case (Some p)
    note f = filter_ok_packet [OF run_cons.prems(3), of p]
    show ?thesis using run_cons.IH [OF inv, of "ps @ [p]"] s same f
      by (simp add: Some ex del: exec_event.simps)
  qed
qed simp

lemma started_filter: "unused_ok started" "filter_ok E [] (objects started a)"
  by (simp_all add: unused_ok_def filter_ok_def filter_view_def last_kept_def started_def AcceptNext_def
      initial_server_def new_session_def)

subsection \<open>Two readings that differ by a ten-thousandth\<close>

lemma packets_received_append:
  "server_run E w evs v \<Longrightarrow>
   packets_received E a (evs @ evs') w = packets_received E a evs w @ packets_received E a evs' v"
  by (induction rule: server_run.induct) (simp_all add: exec_event_iff [symmetric] del: exec_event.simps)

lemma drop_repeats_Nil: "drop_repeats dup None ps = [] \<Longrightarrow> ps = []"
  by (cases ps) simp_all

lemma relay_received: "env_laws E \<Longrightarrow> packets_received E a (relay_events E) started = []"
proof -
  assume E: "env_laws E"
  note f = filter_run [OF relay_run [OF E, unfolded exec_events_iff] started_inv started_filter, of a]
  have "last_kept (objects relay_state a) = None" by (simp add: last_kept_def)
  then have "drop_repeats (IsDuplicate (llround_unspecified E)) None (packets_received E a (relay_events E) started) = []"
    using f by (simp add: filter_ok_def filter_view_def Let_def split: if_splits)
  then show ?thesis by (rule drop_repeats_Nil)
qed

definition after_packets :: "'j env \<Rightarrow> AccelPacket \<Rightarrow> AccelPacket \<Rightarrow> server" where
  "after_packets E p q = release 0 (on_read E 0 (ReadData (packet_chunk E q)) (after_packet E 0 p))"

definition two_packet_events :: "'j env \<Rightarrow> AccelPacket \<Rightarrow> AccelPacket \<Rightarrow> event list" where
  "two_packet_events E p q = relay_events E @
     [ReadEvent 0 (ReadData (packet_chunk E p)), ReadEvent 0 (ReadData (packet_chunk E q))]"

lemma after_packet_reader:
  assumes "env_laws E"
  shows "live (after_packet E 0 p) 0" "read_pending (objects (after_packet E 0 p) 0)"
    "role (objects (after_packet E 0 p) 0) = k_role_A"
    "sendable_packet p \<Longrightarrow> buffer (objects (after_packet E 0 p) 0) = []"
proof -
  note c = server_invD(1) [OF reachable_inv [OF reachable_relay [OF assms]]]
  note x = extendsD(1,7,9,11) [OF extends_HandleLine [OF core_queues [OF core_line_taken [OF c, of 0 "packet_chunk E p"]],
        of E 0 "next_line (objects relay_state 0) (packet_chunk E p)"]]
  show "live (after_packet E 0 p) 0" "read_pending (objects (after_packet E 0 p) 0)"
    "role (objects (after_packet E 0 p) 0) = k_role_A"
    using x by (simp_all add: after_packet_def on_read_line live_release Let_def)
  assume "sendable_packet p"
  then have "line_safe (json_dump E (ToJson_packet E p))" by (rule built_lines_safe(1) [OF assms])
  then show "buffer (objects (after_packet E 0 p) 0) = []"
    using x by (simp add: after_packet_def on_read_line Let_def)
      (simp add: line_taken_def next_line_taken packet_chunk_def)
qed

lemma two_packets:
  assumes "env_laws E" and "sendable_packet p" and "sendable_packet q"
  shows "server_run E started (two_packet_events E p q) (after_packets E p q)"
    and "packets_received E 0 (two_packet_events E p q) started = [p, q]"
proof -
  have step: "server_step E (after_packet E 0 p) (ReadEvent 0 (ReadData (packet_chunk E q))) (after_packets E p q)"
    unfolding after_packets_def using after_packet_reader [OF assms(1)] after_packet_state(2) [OF assms(1)]
    by (intro server_step.read) (auto simp: read_enabled_def packet_chunk_def)
  note steps = relay_packet_step [OF disjI1 [OF refl], of E p] step
  show run: "server_run E started (two_packet_events E p q) (after_packets E p q)"
    unfolding two_packet_events_def
    using relay_run [OF assms(1), unfolded exec_events_iff] steps by (auto simp: server_run_append server_run_Cons)
  have "packet_by E 0 (ReadEvent 0 (ReadData (packet_chunk E q))) (after_packet E 0 p) = Some q"
    using after_packet_reader [OF assms(1), of p] assms
    by (simp add: packet_by_def packet_chunk_def next_line_frame built_lines_safe packet_in_built)
  moreover have "packet_by E 0 (ReadEvent 0 (ReadData (packet_chunk E p))) relay_state = Some p"
    by (simp add: packet_by_def relay_next_line [OF assms(1,2)])
  ultimately have "packets_received E 0 [ReadEvent 0 (ReadData (packet_chunk E p)),
      ReadEvent 0 (ReadData (packet_chunk E q))] relay_state = [p, q]"
    using steps [folded exec_event_iff] by (simp del: exec_event.simps)
  then show "packets_received E 0 (two_packet_events E p q) started = [p, q]"
    unfolding two_packet_events_def
    using packets_received_append [OF relay_run [OF assms(1), unfolded exec_events_iff]] relay_received [OF assms(1)]
    by simp
qed

subsection \<open>Property of the filter\<close>

text \<open>
  C4. The duplicate filter. However reads, writes and accepts of all sessions interleave,
  the packets a session accepts are the packets it received with consecutive repetitions
  removed, the first of each group kept; repetition is equality of the three axes rounded to
  a thousandth. Its counters count the packets received, accepted and dropped (modulo
  \<open>2^64\<close>), and the packet it compares the next one with is the last one accepted.
\<close>

theorem filter_is_dedup:
  assumes "server_run E started evs w"
  defines "key \<equiv> packet_key (llround_unspecified E)"
  shows "packets_accepted E a evs started =
           drop_repeats (\<lambda>p q. key p = key q) None (packets_received E a evs started) \<and>
         map key (packets_accepted E a evs started) = remdups_adj (map key (packets_received E a evs started)) \<and>
         received_accel_packets_count (objects w a) = of_nat (length (packets_received E a evs started)) \<and>
         accepted_accel_packets_count (objects w a) = of_nat (length (packets_accepted E a evs started)) \<and>
         dropped_accel_packets_count (objects w a) =
           of_nat (length (packets_received E a evs started) - length (packets_accepted E a evs started)) \<and>
         last_kept (objects w a) = (if packets_accepted E a evs started = [] then None
            else Some (last (packets_accepted E a evs started)))"
proof -
  have d: "IsDuplicate (llround_unspecified E) = (\<lambda>p q. key p = key q)"
    by (simp add: fun_eq_iff IsDuplicate_key key_def)
  note run = filter_run [OF assms(1) started_inv started_filter, of a]
  have acc: "packets_accepted E a evs started = drop_repeats (\<lambda>p q. key p = key q) None (packets_received E a evs started)"
    using run by (simp add: d)
  show ?thesis using run acc drop_repeats_remdups [of key]
    unfolding filter_ok_def d Let_def filter_view_def by simp
qed


theorem filter_is_dedup_witness:
  "packets_accepted jenv 0 (two_packet_events jenv (sample_packet 7 5000) (sample_packet 8 5001)) started =
     [sample_packet 7 5000]"
proof -
  note run = two_packets [OF jenv_laws sample_sendable(1) sample_sendable(2), of 7 8]
  have "packet_key u (sample_packet 8 5001) = packet_key u (sample_packet 7 5000)" for u
    using sample_duplicate [of u 7 8] by (simp add: IsDuplicate_key)
  then show ?thesis using filter_is_dedup [OF run(1), of 0] unfolding run(2) by simp
qed

end
