(* ===== verification/Lifecycle.thy ===== *)
theory Lifecycle
  imports DuplicateFilter
begin

text \<open>
  The life of a session and of the two roles in reachable states of the server: who is
  registered, when an object is destroyed, when a role is free again, and that the event
  loop always has something to wait for.
\<close>

subsection \<open>Destroyed sessions, and the accept that is always pending\<close>

definition life_ok :: "server \<Rightarrow> bool" where
  "life_ok w \<longleftrightarrow>
     (running w \<longrightarrow> accept_pending w) \<and>
     (\<forall>b. b < next_addr w \<and> \<not> live w b \<longrightarrow> session_closed (objects w b))"

lemma life_release:
  assumes "life_ok w" and "session_closed (objects w a) \<or> read_pending (objects w a)"
  shows "life_ok (release a w)"
  using assms by (auto simp: life_ok_def live_release)

lemma Close_simps [simp]:
  "live (Close a w) = live w" "accept_pending (Close a w) = accept_pending w" "running (Close a w) = running w"
  by (simp_all add: Close_def Let_def)

lemma life_mono:
  assumes "life_ok w" and "live w' = live w" and "next_addr w' = next_addr w"
    and "accept_pending w' = accept_pending w" and "running w' = running w"
    and "\<And>b. session_closed (objects w b) \<Longrightarrow> session_closed (objects w' b)"
  shows "life_ok w'"
  using assms by (auto simp: life_ok_def)

lemma on_read_frame:
  assumes "server_inv w"
  shows "live (on_read E a r w) = live w" "next_addr (on_read E a r w) = next_addr w"
    "accept_pending (on_read E a r w) = accept_pending w" "running (on_read E a r w) = running w"
    "session_closed (objects w b) \<Longrightarrow> session_closed (objects (on_read E a r w) b)"
    "session_closed (objects (on_read E a r w) a) \<or> read_pending (objects (on_read E a r w) a)"
proof -
  note h = extends_HandleLine [OF core_queues [OF core_line_taken [OF server_invD(1) [OF assms], of a]], of _ E a]
  show "live (on_read E a r w) = live w" "next_addr (on_read E a r w) = next_addr w"
    "accept_pending (on_read E a r w) = accept_pending w" "running (on_read E a r w) = running w"
    "session_closed (objects w b) \<Longrightarrow> session_closed (objects (on_read E a r w) b)"
    "session_closed (objects (on_read E a r w) a) \<or> read_pending (objects (on_read E a r w) a)"
    using extendsD(1,2,4,5,9) [OF h]
    by (cases r; auto simp: on_read_line Let_def; auto simp: on_read_def objects_Close Let_def)+
qed

lemma on_write_frame:
  assumes "write_pending (objects w a) = Some m" and "server_inv w" and "live w a"
  shows "live (on_write a r w) = live w" "next_addr (on_write a r w) = next_addr w"
    "accept_pending (on_write a r w) = accept_pending w" "running (on_write a r w) = running w"
    "session_closed (objects w b) \<Longrightarrow> session_closed (objects (on_write a r w) b)"
    "session_closed (objects (on_write a r w) a) \<or> read_pending (objects (on_write a r w) a)"
  using server_invD(3) [OF assms(2,3)]
  by (cases r; cases "b = a"; auto simp: on_write_success session_quiet_def; auto simp: on_write_def objects_Close Let_def)+

lemma server_inv_put_wire [simp]: "server_inv (put_wire a m w) = server_inv w"
  by (simp add: server_inv_def)

lemma life_step: "server_step E w ev w' \<Longrightarrow> server_inv w \<Longrightarrow> life_ok w \<Longrightarrow> life_ok w'"
proof (induction rule: server_step.induct)
  case (accept w r)
  then show ?case
    by (auto simp: life_ok_def on_accept_def create_session_def AcceptNext_def Start_session_def ReadNextLine_def
        Let_def less_Suc_eq split: accept_completion.splits option.splits)
next
  case (read w a r)
  show ?case
    by (intro life_release life_mono [OF read.prems(2)] on_read_frame [OF read.prems(1)])
next
  case (written w a m)
  have p: "write_pending (objects (put_wire a m w) a) = Some m" "server_inv (put_wire a m w)" "live (put_wire a m w) a"
    using written by simp_all
  show ?case
    by (intro life_release life_mono [OF written.prems(2)]; use on_write_frame [OF p] in simp)
next
  case (write_failed w a m error n)
  have p: "write_pending (objects (put_wire a (take n m) w) a) = Some m" "server_inv (put_wire a (take n m) w)"
    "live (put_wire a (take n m) w) a"
    using write_failed by simp_all
  show ?case
    by (intro life_release life_mono [OF write_failed.prems(2)]; use on_write_frame [OF p] in simp)
qed

lemma reachable_life: "reachable E w \<Longrightarrow> life_ok w"
  by (induction rule: reachable_induct)
    (auto simp: life_ok_def started_def AcceptNext_def initial_server_def
      dest: life_step [unfolded life_ok_def] reachable_inv)

subsection \<open>Reading a hello\<close>

lemma GetClientRole_client: "GetClientRole E json = success r \<Longrightarrow> r = k_role_A \<or> r = k_role_B"
  by (auto simp: GetClientRole_def and_then_def split: Result.splits if_splits)

lemma HandleLine_role:
  assumes "role_in_line E line = Some r"
  shows "HandleLine E a line w = RegisterRole a r (emit (ClientRole r) w) \<and> (r = k_role_A \<or> r = k_role_B)"
proof -
  obtain json where "line \<noteq> []" "ParseJsonLine E line = success json"
      "GetMessageType E json = success k_type_hello" "GetClientRole E json = success r"
    using assms by (auto simp: role_in_line_def simp del: GetMessageType_iff split: Result.splits if_splits)
  then show ?thesis
    by (auto simp: HandleLine_def dest: GetClientRole_client simp del: GetMessageType_iff)
qed


definition GetNode :: "string \<Rightarrow> (addr \<Rightarrow> bool) \<Rightarrow> ServerState \<Rightarrow> addr option" where
  "GetNode r alive st = (if r = k_role_A then GetNodeA alive st else GetNodeB alive st)"

lemma RegisterRole_outcome:
  assumes "core w" and "live w a" and "role (objects w a) = []" and "r = k_role_A \<or> r = k_role_B"
  shows "GetNode r (live w) (registry w) = None \<Longrightarrow>
       role (objects (RegisterRole a r w) a) = r \<and> GetNode r (live w) (registry (RegisterRole a r w)) = Some a"
    and "GetNode r (live w) (registry w) \<noteq> None \<Longrightarrow>
       role (objects (RegisterRole a r w) a) = [] \<and> registry (RegisterRole a r w) = registry w"
    and "r' \<noteq> r \<Longrightarrow> r' = k_role_A \<or> r' = k_role_B \<Longrightarrow>
       GetNode r' (live w) (registry (RegisterRole a r w)) = GetNode r' (live w) (registry w)"
proof -
  have ok: "has_server_state (objects w a)" using has_server_state_core [OF assms(1,2)] .
  have na: "node_a (registry w) \<noteq> Some a" "node_b (registry w) \<noteq> Some a"
    using coreD(2,3) [OF assms(1,2)] assms(3) by auto
  show "GetNode r (live w) (registry w) = None \<Longrightarrow>
       role (objects (RegisterRole a r w) a) = r \<and> GetNode r (live w) (registry (RegisterRole a r w)) = Some a"
    and "GetNode r (live w) (registry w) \<noteq> None \<Longrightarrow>
       role (objects (RegisterRole a r w) a) = [] \<and> registry (RegisterRole a r w) = registry w"
    and "r' \<noteq> r \<Longrightarrow> r' = k_role_A \<or> r' = k_role_B \<Longrightarrow>
       GetNode r' (live w) (registry (RegisterRole a r w)) = GetNode r' (live w) (registry w)"
    using assms ok na
    by (auto simp: RegisterRole_def GetNode_def GetNodeA_def GetNodeB_def SetNodeA_def SetNodeB_def Let_def)
qed


lemma GetNode_iff:
  assumes "core w" and "r = k_role_A \<or> r = k_role_B"
  shows "GetNode r (live w) (registry w) = Some b \<longleftrightarrow>
     live w b \<and> role (objects w b) = r \<and> \<not> session_closed (objects w b)"
  using assms(2) coreD(2,3) [OF assms(1), of b] by (auto simp: GetNode_def GetNodeA_def GetNodeB_def)

lemma read_failed_frame:
  assumes "server_inv w" and "server_step E w (ReadEvent a (ReadFail e)) w'"
  shows "session_closed (objects w' a)" "b \<noteq> a \<Longrightarrow> objects w' b = objects w b" "b \<noteq> a \<Longrightarrow> live w' b = live w b"
    "live w' a \<longleftrightarrow> write_pending (objects w a) \<noteq> None" "wire w' = wire w"
  using assms(2)
  by (cases "session_closed (objects w a)"; auto elim!: ReadEventE simp: on_read_def objects_Close live_release Let_def)+

lemma write_failed_frame:
  assumes "server_inv w" and "server_step E w (WriteEvent a (Some (m, n))) w'"
  shows "session_closed (objects w' a)" "b \<noteq> a \<Longrightarrow> objects w' b = objects w b" "b \<noteq> a \<Longrightarrow> live w' b = live w b"
    "live w' a \<longleftrightarrow> read_pending (objects w a)"
  using assms(2)
  by (cases "session_closed (objects w a)"; auto simp: write_failed_step_iff on_write_def objects_Close live_release Let_def)+

lemma option_eqI: "(\<And>b. x = Some b \<longleftrightarrow> y = Some b) \<Longrightarrow> x = y"
  by (cases x; cases y) auto

lemma closing_frees:
  assumes "server_inv w" and "server_inv w'" and "session_closed (objects w' a)"
    and "\<And>b. b \<noteq> a \<Longrightarrow> objects w' b = objects w b" and "\<And>b. b \<noteq> a \<Longrightarrow> live w' b = live w b"
    and "r = k_role_A \<or> r = k_role_B"
  shows "GetNode r (live w') (registry w') =
     (if GetNode r (live w) (registry w) = Some a then None else GetNode r (live w) (registry w))"
proof -
  note g = GetNode_iff [OF server_invD(1) [OF assms(1)] assms(6)] GetNode_iff [OF server_invD(1) [OF assms(2)] assms(6)]
  have "GetNode r (live w') (registry w') = Some b \<longleftrightarrow> b \<noteq> a \<and> GetNode r (live w) (registry w) = Some b" for b
    using g assms(3-5) by (cases "b = a") simp_all
  then show ?thesis by (intro option_eqI) auto
qed

lemma hello_step:
  assumes "server_inv w" and "server_step E w (ReadEvent a (ReadData chunk)) w'"
    and "role (objects w a) = []" and "role_in_line E (next_line (objects w a) chunk) = Some r"
  shows "\<exists>v. core v \<and> live v = live w \<and> registry v = registry w \<and> role (objects v a) = [] \<and> live w a \<and>
     (r = k_role_A \<or> r = k_role_B) \<and> live w' = live w \<and> registry w' = registry (RegisterRole a r v) \<and>
     role (objects w' a) = role (objects (RegisterRole a r v) a)"
proof -
  define v where "v = emit (ClientRole r) (line_taken a chunk w)"
  note c = core_line_taken [OF server_invD(1) [OF assms(1)], of a chunk]
  have l: "live w a" "w' = release a (on_read E a (ReadData chunk) w)"
    using assms(2) by (auto elim!: ReadEventE)
  have "\<not> session_closed (objects w a)"
    using server_invD(3) [OF assms(1) l(1)] assms(3) by (auto simp: session_quiet_def)
  moreover have "on_read E a (ReadData chunk) w =
      (if session_closed (objects (RegisterRole a r v) a) then RegisterRole a r v
       else upd a (\<lambda>s. s\<lparr>read_pending := True\<rparr>) (RegisterRole a r v))"
    using HandleLine_role [OF assms(4), of a "line_taken a chunk w"] by (simp add: on_read_line Let_def v_def)
  moreover have "session_closed (objects (RegisterRole a r v) a) = session_closed (objects w a)"
      "live (RegisterRole a r v) = live w"
    using extendsD(1,9) [OF extends_RegisterRole [of v a r]] by (simp_all add: v_def)
  ultimately have "live w' = live w" "registry w' = registry (RegisterRole a r v)"
      "role (objects w' a) = role (objects (RegisterRole a r v) a)"
    by (simp_all add: l(2) release_def)
  then show ?thesis
    using c l(1) assms(3) HandleLine_role [OF assms(4), of a w] by (intro exI [of _ v]) (simp add: v_def)
qed

subsection \<open>When the event loop ends\<close>

text \<open>
  \<open>io.run()\<close> comes to an end when an exception leaves a handler, or when no asynchronous
  operation is pending any more.
\<close>

definition io_run_over :: "server \<Rightarrow> bool" where
  "io_run_over w \<longleftrightarrow>
     \<not> running w \<or>
     (\<not> accept_pending w \<and>
      (\<forall>b \<in> set [0..<next_addr w]. \<not> live w b \<or>
         \<not> read_pending (objects w b) \<and> write_pending (objects w b) = None))"

lemma running_step:
  assumes "server_step E w ev w'" and "server_inv w"
  shows "running w' \<longleftrightarrow> ev \<noteq> AcceptEvent (Accepted None)"
  using assms(1)
proof cases
  case (accept r)
  then show ?thesis
    by (auto simp: on_accept_def create_session_def AcceptNext_def Start_session_def ReadNextLine_def Let_def
        split: accept_completion.splits option.splits)
next
  case (read a r)
  then show ?thesis using on_read_frame(4) [OF assms(2)] by simp
next
  case (written a m)
  then show ?thesis by (simp add: on_write_success)
next
  case (write_failed a m error n)
  then show ?thesis by (simp add: on_write_def Let_def)
qed

lemma no_step_when_stopped: "\<not> running w \<Longrightarrow> \<not> server_step E w ev w'"
  by (auto elim: server_step.cases)

lemma running_run:
  "server_run E w evs w' \<Longrightarrow> server_inv w \<Longrightarrow> running w \<Longrightarrow> running w' \<longleftrightarrow> AcceptEvent (Accepted None) \<notin> set evs"
proof (induction rule: server_run.induct)
  case (run_cons w ev v evs w')
  note r = running_step [OF run_cons.hyps(1) run_cons.prems(1)]
  show ?case
  proof (cases "running v")
    case True
    then show ?thesis using run_cons.IH [OF server_step_inv [OF run_cons.hyps(1) run_cons.prems(1)]] r by auto
  next
    case False
    then have "evs = []" "w' = v"
      using run_cons.hyps(2) no_step_when_stopped [OF False] by (auto elim: server_run.cases)
    then show ?thesis using r False by auto
  qed
qed simp

subsection \<open>The end of a closed session\<close>

text \<open>
  The asynchronous operations a session has pending: each one's handler holds a reference to
  the object. \<open>completes b ev\<close>: the event completes one of session \<open>b\<close>.
\<close>

definition operations :: "session \<Rightarrow> nat" where
  "operations s = of_bool (read_pending s) + of_bool (write_pending s \<noteq> None)"

fun completes :: "addr \<Rightarrow> event \<Rightarrow> bool" where
  "completes b (AcceptEvent r) = False"
| "completes b (ReadEvent a r) = (a = b)"
| "completes b (WriteEvent a r) = (a = b)"

lemma operations_0 [simp]: "operations s = 0 \<longleftrightarrow> \<not> read_pending s \<and> write_pending s = None"
  by (simp add: operations_def)

lemma operations_upd [simp]:
  "operations (s\<lparr>read_pending := p\<rparr>) = of_bool p + of_bool (write_pending s \<noteq> None)"
  by (simp add: operations_def)

lemma operations_le_2: "operations s \<le> 2"
  by (simp add: operations_def)

lemma release_objects: "objects (release a w) = objects w"
  by (simp add: release_def)

lemma live_release_operations: "live (release a w) b \<longleftrightarrow> live w b \<and> (b = a \<longrightarrow> operations (objects w a) \<noteq> 0)"
  by (simp add: live_release)

lemma operations_live: "server_inv w \<Longrightarrow> live w b \<Longrightarrow> operations (objects w b) \<noteq> 0"
  using server_invD(3) [of w b] by (simp add: session_quiet_def)

lemma closed_on_read:
  assumes "server_inv w" and "session_closed (objects w b)" and "read_pending (objects w a)"
  shows "session_closed (objects (on_read E a r w) b) \<and>
     operations (objects w b) = operations (objects (on_read E a r w) b) + of_bool (a = b)"
proof (cases r)
  case (ReadFail e)
  then show ?thesis using assms(2,3) by (auto simp: on_read_def objects_Close Let_def operations_def)
next
  case (ReadData chunk)
  note h = extendsD [OF extends_HandleLine [OF core_queues [OF core_line_taken [OF server_invD(1) [OF assms(1)],
          of a chunk]], of E a "next_line (objects w a) chunk"]]
  show ?thesis
    using h(9,10,14) [of b] assms(2,3)
    by (cases "a = b") (auto simp: ReadData on_read_line Let_def operations_def line_taken_def)
qed

lemma closed_on_write:
  assumes "session_closed (objects w b)" and "write_pending (objects w a) = Some m"
  shows "session_closed (objects (on_write a r w) b) \<and>
     operations (objects w b) = operations (objects (on_write a r w) b) + of_bool (a = b)"
proof (cases r)
  case None
  then show ?thesis using assms by (auto simp: on_write_success operations_def)
next
  case (Some e)
  then show ?thesis using assms by (auto simp: on_write_def objects_Close Let_def operations_def)
qed

lemma live_on_write [simp]: "live (on_write a r w) = live w"
  by (cases r) (simp_all add: on_write_success, simp add: on_write_def Let_def)

text \<open>
  A step invariant: no event gives a closed session a new operation; the completion of one of
  its own takes that one away and destroys the object when none is left.
\<close>

lemma closed_step:
  assumes "server_step E w ev w'" and "server_inv w" and "live w b" and "session_closed (objects w b)"
  shows "session_closed (objects w' b) \<and>
     operations (objects w b) = operations (objects w' b) + of_bool (completes b ev) \<and>
     (live w' b \<longleftrightarrow> operations (objects w' b) \<noteq> 0)"
  using assms(1)
proof cases
  case (accept r)
  have "b < next_addr w" using server_invD(2) [OF assms(2)] assms(3) by (simp add: addresses_ok_def)
  then show ?thesis using assms(3,4) operations_live [OF assms(2,3)]
    by (auto simp: accept(1,2) on_accept_def create_session_def AcceptNext_def Start_session_def ReadNextLine_def Let_def
        simp del: operations_0 split: accept_completion.splits option.splits)
next
  case (read a r)
  show ?thesis
    using closed_on_read [OF assms(2,4) read(5), of E r] on_read_frame(1) [OF assms(2), of E a r] assms(3)
      operations_live [OF assms(2,3)]
    by (cases "a = b") (simp_all add: read(1,2) release_objects live_release_operations del: operations_0)
next
  case (written a m)
  show ?thesis
    using closed_on_write [of "put_wire a m w" b a m None] assms(3,4) written(5) operations_live [OF assms(2,3)]
    by (cases "a = b") (simp_all add: written(1,2) release_objects live_release_operations del: operations_0)
next
  case (write_failed a m error n)
  show ?thesis
    using closed_on_write [of "put_wire a (take n m) w" b a m "Some error"] assms(3,4) write_failed(5)
      operations_live [OF assms(2,3)]
    by (cases "a = b") (simp_all add: write_failed(1,2) release_objects live_release_operations del: operations_0)
qed

lemma own_completion:
  assumes "running w" and "live w b" and "operations (objects w b) \<noteq> 0"
  shows "\<exists>ev w'. server_step E w ev w' \<and> completes b ev"
proof (cases "read_pending (objects w b)")
  case True
  have "server_step E w (ReadEvent b (ReadFail Eof)) (release b (on_read E b (ReadFail Eof) w))"
    using assms True by (intro server_step.read) (simp_all add: read_enabled_def)
  then show ?thesis by (metis completes.simps)
next
  case False
  then obtain m where "write_pending (objects w b) = Some m" using assms(3) by auto
  then have "server_step E w (WriteEvent b None) (release b (on_write b None (put_wire b m w)))"
    using assms by (intro server_step.written) simp_all
  then show ?thesis by (metis completes.simps)
qed

lemma closed_destroyed:
  assumes "running w" and "server_inv w" and "live w b" and "session_closed (objects w b)"
  shows "\<exists>evs w'. server_run E w evs w' \<and> list_all (completes b) evs \<and>
     length evs = operations (objects w b) \<and> \<not> live w' b"
  using assms
proof (induction "operations (objects w b)" arbitrary: w)
  case 0
  then show ?case using operations_live [of w b] by simp
next
  case (Suc k)
  obtain ev v where s: "server_step E w ev v" and c: "completes b ev"
    using own_completion [of w b E] Suc.hyps(2) Suc.prems(1,3) by (metis nat.distinct(1))
  note st = closed_step [OF s Suc.prems(2-4)] and i = server_step_inv [OF s Suc.prems(2)]
  have k: "k = operations (objects v b)" using st c Suc.hyps(2) by simp
  show ?case
  proof (cases "live v b")
    case True
    have "running v" using running_step [OF s Suc.prems(2)] c by auto
    then obtain evs w' where "server_run E v evs w'" "list_all (completes b) evs" "length evs = k" "\<not> live w' b"
      using Suc.hyps(1) [OF k _ i True] st k by auto
    then show ?thesis using s c Suc.hyps(2)
      by (intro exI [of _ "ev # evs"] exI [of _ w']) (simp add: run_cons)
  next
    case False
    then have "server_run E w [ev] v" "Suc k = 1" using s st k by (simp_all add: server_run_Cons del: operations_0)
    then show ?thesis using False c Suc.hyps(2) by (intro exI [of _ "[ev]"] exI [of _ v]) simp
  qed
qed

subsection \<open>Properties\<close>

text \<open>
  C9. In every reachable state the registry is right: the session registered for a role is
  exactly the live, open session that was given the role, so each role has at most one.
\<close>

theorem registry_consistent:
  assumes "reachable E w" and "r = k_role_A \<or> r = k_role_B"
  shows "GetNode r (live w) (registry w) = Some b \<longleftrightarrow>
     live w b \<and> role (objects w b) = r \<and> \<not> session_closed (objects w b)"
  by (rule GetNode_iff [OF server_invD(1) [OF reachable_inv [OF assms(1)]] assms(2)])

theorem registry_consistent_witness:
  "GetNode k_role_B (live relay_state) (registry relay_state) = Some 1"
  using registry_consistent [OF reachable_relay [OF jenv_laws] disjI2 [OF refl], of 1] by simp

text \<open>
  C11. What a hello does: a session without a role that says hello gets the role when no live
  session holds it, and the other role is still held by whoever held it before, or by nobody;
  when a live session holds the role, the hello is refused, and neither the registry nor the
  set of live sessions changes.
\<close>

theorem hello_outcome:
  assumes "reachable E w" and "server_step E w (ReadEvent a (ReadData chunk)) w'"
    and "role (objects w a) = []" and "role_in_line E (next_line (objects w a) chunk) = Some r"
  shows "if GetNode r (live w) (registry w) = None
         then role (objects w' a) = r \<and> GetNode r (live w') (registry w') = Some a \<and>
           (\<forall>r' \<in> {k_role_A, k_role_B} - {r}.
              GetNode r' (live w') (registry w') = GetNode r' (live w) (registry w))
         else role (objects w' a) = [] \<and> registry w' = registry w \<and> live w' = live w"
proof -
  obtain v where "core v" "live v = live w" "registry v = registry w" "role (objects v a) = []" "live w a"
      "r = k_role_A \<or> r = k_role_B" "live w' = live w" "registry w' = registry (RegisterRole a r v)"
      "role (objects w' a) = role (objects (RegisterRole a r v) a)"
    using hello_step [OF reachable_inv [OF assms(1)] assms(2-4)] by blast
  then show ?thesis using RegisterRole_outcome [of v a r] by auto
qed

lemma role_in_built:
  assumes "env_laws E" and "client_role r"
  shows "role_in_line E (json_dump E (MakeHelloMessage E r)) = Some r"
  using hello_codec.text_roundtrip [OF env_lawsD [OF assms(1)] assms(2)]
    hello_codec.line_shape(1) [OF env_lawsD(3) [OF assms(1)] assms(2)]
  by (auto simp: role_in_line_def ParseJsonLine_def simp flip: GetMessageType_iff simp del: GetMessageType_iff)

text \<open>A third client, and the bytes of its hello.\<close>

definition third_client :: server where
  "third_client = on_accept (Accepted (Some (''10.0.0.3'', 40003))) relay_state"

definition hello_chunk :: "'j env \<Rightarrow> string \<Rightarrow> string" where
  "hello_chunk E r = server_frame (json_dump E (MakeHelloMessage E r))"

lemma third_client_simps:
  "live third_client 2" "running third_client" "read_pending (objects third_client 2)"
  "role (objects third_client 2) = []" "buffer (objects third_client 2) = []"
  "registry third_client = \<lparr>node_a = Some 0, node_b = Some 1\<rparr>" "live third_client 0" "live third_client 1"
  by (simp_all add: third_client_def on_accept_def create_session_def AcceptNext_def Start_session_def
      ReadNextLine_def Let_def new_session_def)

lemma third_client_reachable: "env_laws E \<Longrightarrow> reachable E third_client"
  unfolding third_client_def
  by (rule reachable_step [OF reachable_relay server_step.accept]) simp_all

lemma third_client_hello:
  "server_step E third_client (ReadEvent 2 (ReadData (hello_chunk E r)))
     (release 2 (on_read E 2 (ReadData (hello_chunk E r)) third_client))"
  by (rule server_step.read) (simp_all add: third_client_simps read_enabled_def hello_chunk_def)

theorem hello_outcome_witness:
  "role (objects (release 2 (on_read jenv 2 (ReadData (hello_chunk jenv k_role_A)) third_client)) 2) = []"
proof -
  have r: "client_role k_role_A" by (simp add: client_role_def)
  have "role_in_line jenv (next_line (objects third_client 2) (hello_chunk jenv k_role_A)) = Some k_role_A"
    unfolding hello_chunk_def next_line_frame [OF third_client_simps(5) built_lines_safe(3) [OF jenv_laws r]]
    by (rule role_in_built [OF jenv_laws r])
  from hello_outcome [OF third_client_reachable [OF jenv_laws] third_client_hello third_client_simps(4) this]
  show ?thesis by (simp add: GetNode_def GetNodeA_def third_client_simps)
qed

text \<open>
  C12. A connection that breaks, while reading or while writing, is closed and gives up its
  role at once, so another client can register; the other role keeps its session. The
  object is destroyed unless its other asynchronous operation is still pending.
\<close>

theorem broken_connection_frees_role:
  assumes "reachable E w" and "server_step E w ev w'"
    and "ev = ReadEvent a (ReadFail e) \<or> ev = WriteEvent a (Some (m, n))"
    and "r = k_role_A \<or> r = k_role_B"
  shows "session_closed (objects w' a) \<and>
         GetNode r (live w') (registry w') =
           (if GetNode r (live w) (registry w) = Some a then None else GetNode r (live w) (registry w)) \<and>
         (live w' a \<longleftrightarrow>
            (case ev of ReadEvent _ _ \<Rightarrow> write_pending (objects w a) \<noteq> None | _ \<Rightarrow> read_pending (objects w a)))"
proof -
  note i = reachable_inv [OF assms(1)] and i' = reachable_inv [OF reachable_step [OF assms(1,2)]]
  from assms(3) show ?thesis
  proof
    assume ev: "ev = ReadEvent a (ReadFail e)"
    note f = read_failed_frame [OF i assms(2) [unfolded ev]]
    show ?thesis using closing_frees [OF i i' f(1) f(2,3) assms(4)] f(1,4) by (simp add: ev)
  next
    assume ev: "ev = WriteEvent a (Some (m, n))"
    note f = write_failed_frame [OF i assms(2) [unfolded ev]]
    show ?thesis using closing_frees [OF i i' f(1) f(2,3) assms(4)] f(1,4) by (simp add: ev)
  qed
qed

theorem broken_connection_frees_role_witness:
  "GetNode k_role_A (live (release 0 (on_read jenv 0 (ReadFail Eof) relay_state)))
     (registry (release 0 (on_read jenv 0 (ReadFail Eof) relay_state))) = None"
proof -
  have "server_step jenv relay_state (ReadEvent 0 (ReadFail Eof)) (release 0 (on_read jenv 0 (ReadFail Eof) relay_state))"
    by (rule server_step.read) (simp_all add: read_enabled_def)
  from broken_connection_frees_role [OF reachable_relay [OF jenv_laws] this disjI1 [OF refl] disjI1 [OF refl]]
  show ?thesis by (simp add: GetNode_def GetNodeA_def)
qed

text \<open>
  C10. The life of a session object: while its connection is open it is waiting for a line;
  it is destroyed only after it has been closed. A live, closed one still has an operation
  pending and gets no new one: completing one of its own takes that one away, no other event
  changes their number, and the object is destroyed exactly when none is left. While the
  server runs, completing all of them, at most two, is possible and destroys it: no closed
  session leaks.
\<close>

theorem session_lifecycle:
  assumes "reachable E w" and "b < next_addr w"
  shows "(if live w b
          then (if session_closed (objects w b)
                then read_pending (objects w b) \<or> write_pending (objects w b) \<noteq> None
                else read_pending (objects w b))
          else session_closed (objects w b) \<and> GetNodeA (live w) (registry w) \<noteq> Some b \<and>
               GetNodeB (live w) (registry w) \<noteq> Some b) \<and>
         (live w b \<and> session_closed (objects w b) \<longrightarrow>
            (\<forall>ev w'. server_step E w ev w' \<longrightarrow>
               operations (objects w b) = operations (objects w' b) + of_bool (completes b ev) \<and>
               session_closed (objects w' b) \<and> (live w' b \<longleftrightarrow> operations (objects w' b) \<noteq> 0)) \<and>
            operations (objects w b) \<le> 2 \<and>
            (running w \<longrightarrow>
               (\<exists>evs w'. server_run E w evs w' \<and> list_all (completes b) evs \<and>
                  length evs = operations (objects w b) \<and> \<not> live w' b)))"
  using reachable_life [OF assms(1)] server_invD(3) [OF reachable_inv [OF assms(1)], of b] assms(2)
    closed_step [OF _ reachable_inv [OF assms(1)], of E _ _ b] closed_destroyed [OF _ reachable_inv [OF assms(1)], of b E]
  by (auto simp: life_ok_def session_quiet_def GetNodeA_def GetNodeB_def operations_le_2 simp del: operations_0)

text \<open>
  Node B breaks off while a packet is being written to it: the session is closed, and waits
  for that write only.
\<close>

definition broken_off :: "'j env \<Rightarrow> server" where
  "broken_off E = release 1 (on_read E 1 (ReadFail Eof) (after_packet E 0 (sample_packet 7 5000)))"

lemma broken_off:
  assumes "env_laws E"
  shows "reachable E (broken_off E)" "live (broken_off E) 1" "session_closed (objects (broken_off E) 1)"
    "operations (objects (broken_off E) 1) = 1" "running (broken_off E)" "1 < next_addr (broken_off E)"
proof -
  let ?w = "after_packet E 0 (sample_packet 7 5000)"
  note r = after_packet_reachable [OF assms disjI1 [OF refl], of "sample_packet 7 5000"]
  note st = after_packet_state [OF assms, of "sample_packet 7 5000"]
    and p = after_packet_pending [OF assms sample_sendable(1)]
  have q: "read_pending (objects ?w 1)"
    using server_invD(3) [OF reachable_inv [OF r] st(1)] st(4) [of 1] by (simp add: session_quiet_def)
  have s: "server_step E ?w (ReadEvent 1 (ReadFail Eof)) (broken_off E)"
    unfolding broken_off_def by (rule server_step.read) (use st q in \<open>simp_all add: read_enabled_def\<close>)
  note f = read_failed_frame [OF reachable_inv [OF r] s]
  show "reachable E (broken_off E)" by (rule reachable_step [OF r s])
  then have i: "server_inv (broken_off E)" by (rule reachable_inv)
  show l: "live (broken_off E) 1" and "session_closed (objects (broken_off E) 1)" using f(1,4) p by simp_all
  show "operations (objects (broken_off E) 1) = 1" using p st(4) [of 1]
    by (simp add: broken_off_def release_objects on_read_def objects_Close operations_def Let_def)
  show "running (broken_off E)" using running_step [OF s reachable_inv [OF r]] st(2) by simp
  show "1 < next_addr (broken_off E)" using server_invD(2) [OF i] l by (auto simp: addresses_ok_def)
qed

theorem session_lifecycle_witness:
  "\<exists>ev w'. server_run jenv (broken_off jenv) [ev] w' \<and> completes 1 ev \<and> \<not> live w' 1"
proof -
  note b = broken_off [OF jenv_laws]
  obtain evs w' where "server_run jenv (broken_off jenv) evs w'" "list_all (completes 1) evs"
      "length evs = operations (objects (broken_off jenv) 1)" "\<not> live w' 1"
    using session_lifecycle [OF b(1,6)] b(2,3,5) by blast
  moreover from this b(4) obtain ev where "evs = [ev]" by (auto simp: length_Suc_conv)
  ultimately show ?thesis by (intro exI [of _ ev] exI [of _ w']) simp
qed

text \<open>
  C17. The event loop never runs out of work and no session is forgotten: while the server
  runs, an accept is pending, and every live session has an operation pending that the
  network can complete.
\<close>

theorem always_waiting:
  assumes "reachable E w" and "running w"
  shows "accept_pending w \<and>
     (\<forall>b. live w b \<longrightarrow> (\<exists>r w'. server_step E w (ReadEvent b r) w') \<or> (\<exists>r w'. server_step E w (WriteEvent b r) w'))"
proof (intro conjI allI impI)
  show "accept_pending w" using reachable_life [OF assms(1)] assms(2) by (simp add: life_ok_def)
  fix b assume b: "live w b"
  then have "read_pending (objects w b) \<or> (\<exists>m. write_pending (objects w b) = Some m)"
    using server_invD(3) [OF reachable_inv [OF assms(1)] b] by (auto simp: session_quiet_def)
  then show "(\<exists>r w'. server_step E w (ReadEvent b r) w') \<or> (\<exists>r w'. server_step E w (WriteEvent b r) w')"
    using server_step.read [OF assms(2) b, of "ReadFail Eof" E] server_step.written [OF assms(2) b, of _ E]
    by (auto simp: read_enabled_def)
qed

theorem always_waiting_witness:
  "(\<exists>r w'. server_step jenv relay_state (ReadEvent 1 r) w') \<or> (\<exists>r w'. server_step jenv relay_state (WriteEvent 1 r) w')"
  by (rule always_waiting [OF reachable_relay [OF jenv_laws] relay_simps(2), THEN conjunct2, THEN spec, THEN mp]) simp

text \<open>
  C36. The one way the server stops: an accepted connection is gone before its address can be
  asked for. That exception ends the event loop, with every session, for good; until it
  happens, whatever else fails, the loop has not ended, neither by an exception nor for lack
  of pending operations, and some event can still happen.
\<close>

theorem stops_only_by_exception:
  assumes "server_run E started evs w"
  shows "(running w \<longleftrightarrow> AcceptEvent (Accepted None) \<notin> set evs) \<and>
         (io_run_over w \<longleftrightarrow> AcceptEvent (Accepted None) \<in> set evs) \<and>
         ((\<exists>ev w'. server_step E w ev w') \<longleftrightarrow> AcceptEvent (Accepted None) \<notin> set evs)"
proof -
  have r: "running w \<longleftrightarrow> AcceptEvent (Accepted None) \<notin> set evs"
    using running_run [OF assms started_inv] by (simp add: started_def AcceptNext_def initial_server_def)
  have a: "running w \<longrightarrow> accept_pending w"
    using reachable_life [of E w] assms by (auto simp: life_ok_def reachable_def)
  have "(\<exists>ev w'. server_step E w ev w') \<longleftrightarrow> running w"
    using a server_step.accept [of w E] no_step_when_stopped [of w E] by blast
  moreover have "io_run_over w \<longleftrightarrow> \<not> running w" using a by (auto simp: io_run_over_def)
  ultimately show ?thesis using r by simp
qed

theorem stops_only_by_exception_witness:
  "io_run_over (on_accept (Accepted None) relay_state) \<and>
   \<not> (\<exists>ev w'. server_step jenv (on_accept (Accepted None) relay_state) ev w')"
proof -
  have "server_run jenv started (relay_events jenv @ [AcceptEvent (Accepted None)]) (on_accept (Accepted None) relay_state)"
    using relay_run [OF jenv_laws, unfolded exec_events_iff] server_step.accept [OF relay_simps(2,3)]
    by (auto simp: server_run_append server_run_Cons)
  note stop = stops_only_by_exception [OF this]
  show ?thesis using stop [THEN conjunct2] by simp
qed

text \<open>
  \<open>main\<close>: when opening, configuring, binding or listening fails, the program prints that
  one error and exits with \<open>EXIT_FAILURE\<close> without accepting anything; otherwise it serves,
  and its states are those of the runs from \<open>started\<close>.
\<close>

lemma main_outcome:
  "(if open_error errs = None \<and> reuse_address_error errs = None \<and> bind_error errs = None \<and> listen_error errs = None
    then \<exists>result. server_main E errs evs = Inr result \<and> (\<forall>w. result = Some w \<longleftrightarrow> server_run E started evs w)
    else server_main E errs evs = Inl exit_failure \<and> length (diags (snd (Start_server errs initial_server))) = 1 \<and>
         \<not> accept_pending (snd (Start_server errs initial_server)))"
  by (auto simp: server_main_def Start_server_def started_def exec_events_iff [symmetric] initial_server_def
      split: option.splits)

end
