(* ===== verification/Relay.thy ===== *)
theory Relay
  imports Lifecycle
begin

text \<open>
  The relay between the two registered nodes over a whole run: what Node B is sent is every
  packet that passes the filter, what Node A is sent is every module, in the order the
  server read them.
\<close>

subsection \<open>What passes through the server\<close>

definition accepted_by :: "'j env \<Rightarrow> event \<Rightarrow> server \<Rightarrow> AccelPacket list" where
  "accepted_by E ev w =
     (case ev of
        ReadEvent a (ReadData chunk) \<Rightarrow>
          (case packet_in_line E (objects w a) (next_line (objects w a) chunk) of
             Some p \<Rightarrow> if is_repeat E (objects w a) p then [] else [p]
           | None \<Rightarrow> [])
      | _ \<Rightarrow> [])"

definition module_by :: "'j env \<Rightarrow> event \<Rightarrow> server \<Rightarrow> AccelModule list" where
  "module_by E ev w =
     (case ev of
        ReadEvent a (ReadData chunk) \<Rightarrow>
          (case module_in_line E (objects w a) (next_line (objects w a) chunk) of Some m \<Rightarrow> [m] | None \<Rightarrow> [])
      | _ \<Rightarrow> [])"

fun along :: "'j env \<Rightarrow> (event \<Rightarrow> server \<Rightarrow> 'm list) \<Rightarrow> event list \<Rightarrow> server \<Rightarrow> 'm list" where
  "along E found [] w = []"
| "along E found (ev # evs) w =
     found ev w @ (case exec_event E ev w of None \<Rightarrow> [] | Some v \<Rightarrow> along E found evs v)"

lemma along_step: "server_step E w ev v \<Longrightarrow> along E found (ev # evs) w = found ev w @ along E found evs v"
  by (simp add: exec_event_iff [symmetric] del: exec_event.simps)

definition packet_frame :: "'j env \<Rightarrow> AccelPacket \<Rightarrow> string" where
  "packet_frame E p = server_frame (json_dump E (ToJson_packet E p))"

definition module_frame :: "'j env \<Rightarrow> AccelModule \<Rightarrow> string" where
  "module_frame E m = server_frame (json_dump E (ToJson_module E m))"

subsection \<open>One step\<close>

lemma in_line_role:
  "packet_in_line E s l = Some p \<Longrightarrow> role s = k_role_A" "module_in_line E s l = Some m \<Longrightarrow> role s = k_role_B"
  by (auto simp: packet_in_line_def module_in_line_def split: if_splits)

lemma in_line_exclusive: "packet_in_line E s l = Some p \<Longrightarrow> module_in_line E s l = None"
  by (auto simp: packet_in_line_def module_in_line_def split: if_splits)

lemma queued_for_B:
  assumes "core w" and "GetNodeB (live w) (registry w) = Some b"
  shows "queued_by E b ev w = map (packet_frame E) (accepted_by E ev w)"
proof -
  have "GetNodeA (live w) (registry w) \<noteq> Some b"
    using GetNodeB_core [OF assms] GetNodeA_core [OF assms(1), of b] by auto
  then show ?thesis using assms(2)
    by (auto simp: queued_by_def accepted_by_def forwards_def packet_frame_def sent_to_def
        split: event.splits read_completion.splits option.splits)
qed

lemma queued_for_A:
  assumes "core w" and "GetNodeA (live w) (registry w) = Some b"
  shows "queued_by E b ev w = map (module_frame E) (module_by E ev w)"
proof -
  have "GetNodeB (live w) (registry w) \<noteq> Some b"
    using GetNodeA_core [OF assms] GetNodeB_core [OF assms(1), of b] by auto
  then show ?thesis using assms(2) in_line_exclusive [of E]
    by (auto simp: queued_by_def module_by_def forwards_def module_frame_def sent_to_def
        split: event.splits read_completion.splits option.splits)
qed

text \<open>A session keeps its role, and a closed one stays closed.\<close>

lemma role_step:
  assumes "server_step E w ev w'" and "server_inv w" and "b < next_addr w"
  shows "(role (objects w b) \<noteq> [] \<longrightarrow> role (objects w' b) = role (objects w b)) \<and>
     (session_closed (objects w b) \<longrightarrow> session_closed (objects w' b)) \<and> next_addr w \<le> next_addr w'"
  using assms(1)
proof cases
  case (accept r)
  then show ?thesis using assms(3)
    by (auto simp: on_accept_def create_session_def AcceptNext_def Start_session_def ReadNextLine_def Let_def
        split: accept_completion.splits option.splits)
next
  case (read a r)
  note h = extends_HandleLine [OF core_queues [OF core_line_taken [OF server_invD(1) [OF assms(2)], of a]], of _ E a]
  have "role (objects (on_read E a r w) b) = role (objects w b)" if "role (objects w b) \<noteq> []"
    using extendsD(11) [OF h] that
    by (cases r; cases "b = a") (auto simp: on_read_line Let_def, auto simp: on_read_def objects_Close Let_def)
  then show ?thesis using read on_read_frame(2,5) [OF assms(2), where E = E and a = a and r = r] by simp
next
  case (written a m)
  then show ?thesis by (auto simp: on_write_success)
next
  case (write_failed a m error n)
  then show ?thesis by (cases "b = a") (auto simp: on_write_def objects_Close Let_def)
qed


lemma closed_run:
  "server_run E w evs w' \<Longrightarrow> server_inv w \<Longrightarrow> b < next_addr w \<Longrightarrow> session_closed (objects w b) \<Longrightarrow>
   session_closed (objects w' b)"
proof (induction rule: server_run.induct)
  case (run_cons w ev v evs w')
  show ?case
    using run_cons.IH [OF server_step_inv [OF run_cons.hyps(1) run_cons.prems(1)]] run_cons.prems
      role_step [OF run_cons.hyps(1) run_cons.prems(1,2)] by simp
qed

lemma still_registered:
  assumes "server_step E w ev w'" and "server_inv w" and "life_ok w" and "r = k_role_A \<or> r = k_role_B"
    and "GetNode r (live w) (registry w) = Some b" and "\<not> session_closed (objects w' b)"
  shows "GetNode r (live w') (registry w') = Some b"
proof -
  note g = GetNode_iff [OF server_invD(1) [OF assms(2)] assms(4), of b]
  note g' = GetNode_iff [OF server_invD(1) [OF server_step_inv [OF assms(1,2)]] assms(4), of b]
  have b: "live w b" "role (objects w b) = r" using assms(5) g by simp_all
  have "r \<noteq> []" using assms(4) by auto
  then have "role (objects w' b) = r" "b < next_addr w'"
    using role_step [OF assms(1,2) live_below [OF assms(2) b(1)]] live_below [OF assms(2) b(1)] b(2) by auto
  moreover have "live w' b"
    using life_step [OF assms(1-3)] assms(6) \<open>b < next_addr w'\<close> by (auto simp: life_ok_def)
  ultimately show ?thesis using g' assms(6) by simp
qed

lemma outbox_append:
  "server_run E w evs v \<Longrightarrow> outbox E b (evs @ evs') w = outbox E b evs w @ outbox E b evs' v"
  by (induction rule: server_run.induct) (simp_all add: exec_event_iff [symmetric] del: exec_event.simps)

lemma sent_along:
  assumes "reachable E w" and "server_run E w evs w'" and "\<not> session_closed (objects w' b)" and "b < next_addr w"
  shows "wire w' b @ concat (write_queue (objects w' b)) =
     wire w b @ concat (write_queue (objects w b)) @ concat (outbox E b evs w)"
proof -
  obtain evs0 where r: "server_run E started evs0 w" using assms(1) by (auto simp: reachable_def)
  have r': "server_run E started (evs0 @ evs) w'" using r assms(2) by (auto simp: server_run_append)
  have o: "\<not> session_closed (objects w b)"
    using closed_run [OF assms(2) reachable_inv [OF assms(1)] assms(4)] assms(3) by blast
  show ?thesis
    using stream_run [OF r started_inv started_stream, of b] stream_run [OF r' started_inv started_stream, of b] o assms(3)
    by (auto simp: stream_ok_def outbox_append [OF r])
qed

subsection \<open>The traffic towards one role\<close>

text \<open>
  \<open>traffic r frame found\<close>: whatever step the server takes, the session registered for the
  role \<open>r\<close> is queued the frames of the messages \<open>found\<close> in it. Then, while that session stays
  open, its stream over any run is made of exactly these frames.
\<close>

locale traffic =
  fixes r :: string
    and frame :: "'j env \<Rightarrow> 'm \<Rightarrow> string"
    and found :: "'j env \<Rightarrow> event \<Rightarrow> server \<Rightarrow> 'm list"
  assumes known_role: "r = k_role_A \<or> r = k_role_B"
    and queued: "core v \<Longrightarrow> GetNode r (live v) (registry v) = Some b \<Longrightarrow>
          queued_by E b ev v = map (frame E) (found E ev v)"
begin

lemma registered_below:
  assumes "server_inv w" and "GetNode r (live w) (registry w) = Some b" shows "b < next_addr w"
  using GetNode_iff [OF server_invD(1) [OF assms(1)] known_role] live_below [OF assms(1)] assms(2) by blast

lemma outbox_along:
  "server_run E w evs w' \<Longrightarrow> server_inv w \<Longrightarrow> life_ok w \<Longrightarrow> GetNode r (live w) (registry w) = Some b \<Longrightarrow>
    \<not> session_closed (objects w' b) \<Longrightarrow>
    outbox E b evs w = map (frame E) (along E (found E) evs w) \<and> GetNode r (live w') (registry w') = Some b"
proof (induction rule: server_run.induct)
  case (run_cons w ev v evs w')
  note inv = server_step_inv [OF run_cons.hyps(1) run_cons.prems(1)]
  note below = registered_below [OF run_cons.prems(1,3)]
  then have "b < next_addr v" using role_step [OF run_cons.hyps(1) run_cons.prems(1)] by fastforce
  then have "\<not> session_closed (objects v b)"
    using closed_run [OF run_cons.hyps(2) inv] run_cons.prems(4) by blast
  note reg = still_registered [OF run_cons.hyps(1) run_cons.prems(1,2) known_role run_cons.prems(3) this]
  show ?case
    using run_cons.IH [OF inv life_step [OF run_cons.hyps(1) run_cons.prems(1,2)] reg run_cons.prems(4)]
      queued [OF server_invD(1) [OF run_cons.prems(1)] run_cons.prems(3)]
    by (simp add: outbox_step [OF run_cons.hyps(1)] along_step [OF run_cons.hyps(1)] del: outbox.simps along.simps)
qed simp

lemma stream:
  assumes "reachable E w" and "server_run E w evs w'"
    and "GetNode r (live w) (registry w) = Some b" and "\<not> session_closed (objects w' b)"
  shows "wire w' b @ concat (write_queue (objects w' b)) =
     wire w b @ concat (write_queue (objects w b)) @ concat (map (frame E) (along E (found E) evs w))"
  using sent_along [OF assms(1,2,4) registered_below [OF reachable_inv [OF assms(1)] assms(3)]]
    outbox_along [OF assms(2) reachable_inv [OF assms(1)] reachable_life [OF assms(1)] assms(3,4)] by simp

end

lemma GetNode_simps [simp]:
  "GetNode k_role_A alive st = GetNodeA alive st" "GetNode k_role_B alive st = GetNodeB alive st"
  by (simp_all add: GetNode_def)

interpretation to_b: traffic k_role_B packet_frame accepted_by
  by unfold_locales (simp_all add: queued_for_B)

interpretation to_a: traffic k_role_A module_frame module_by
  by unfold_locales (simp_all add: queued_for_A)

subsection \<open>One source\<close>

text \<open>When only \<open>a\<close> and Node B's session \<open>b\<close> read lines, what is accepted is what \<open>a\<close> accepts.\<close>

definition reads_from :: "addr \<Rightarrow> addr \<Rightarrow> event \<Rightarrow> bool" where
  "reads_from a b ev \<longleftrightarrow> (case ev of ReadEvent c _ \<Rightarrow> c = a \<or> c = b | _ \<Rightarrow> True)"

lemma accepted_one_source:
  assumes "server_run E w evs w'" and "server_inv w" and "list_all (reads_from a b) evs"
    and "role (objects w b) = k_role_B" and "b < next_addr w" and "a \<noteq> b"
  shows "along E (accepted_by E) evs w = packets_accepted E a evs w"
  using assms
proof (induction rule: server_run.induct)
  case (run_cons w ev v evs w')
  have "role (objects v b) = k_role_B" "b < next_addr v"
    using role_step [OF run_cons.hyps(1) run_cons.prems(1,4)] run_cons.prems(3,4) by auto
  moreover have "accepted_by E ev w =
      (case packet_by E a ev w of None \<Rightarrow> [] | Some p \<Rightarrow> if is_repeat E (objects w a) p then [] else [p])"
    using run_cons.prems(2,3,5) in_line_role(1) [of E "objects w b"]
    by (auto simp: accepted_by_def packet_by_def reads_from_def split: event.splits read_completion.splits option.splits)
  ultimately show ?case
    using run_cons.IH [OF server_step_inv [OF run_cons.hyps(1) run_cons.prems(1)]] run_cons.prems(2,5) run_cons.hyps(1)
    by (simp add: exec_event_iff [symmetric] del: exec_event.simps)
qed simp

subsection \<open>Properties of the relay\<close>

text \<open>
  C3. As long as Node B stays connected, the bytes it is sent are the packets the server
  accepts, each once, re-encoded, one line each, in the order they were accepted, after what
  was queued for it before.
\<close>

theorem relay_to_node_b:
  assumes "reachable E w" and "server_run E w evs w'"
    and "GetNodeB (live w) (registry w) = Some b" and "\<not> session_closed (objects w' b)"
  shows "wire w' b @ concat (write_queue (objects w' b)) =
     wire w b @ concat (write_queue (objects w b)) @
     concat (map (packet_frame E) (along E (accepted_by E) evs w))"
  by (rule to_b.stream [OF assms(1,2) _ assms(4)]) (simp add: assms(3))

text \<open>
  C7. As long as Node A stays connected, the bytes it is sent are the valid modules the server
  reads from Node B, each once, re-encoded, one line each, in the order they were read, after
  what was queued for it before, and nothing else.
\<close>

theorem relay_to_node_a:
  assumes "reachable E w" and "server_run E w evs w'"
    and "GetNodeA (live w) (registry w) = Some a" and "\<not> session_closed (objects w' a)"
  shows "wire w' a @ concat (write_queue (objects w' a)) =
     wire w a @ concat (write_queue (objects w a)) @
     concat (map (module_frame E) (along E (module_by E) evs w))"
  by (rule to_a.stream [OF assms(1,2) _ assms(4)]) (simp add: assms(3))

theorem relay_to_node_b_witness:
  "concat (map (packet_frame jenv) (along jenv (accepted_by jenv)
       [ReadEvent 0 (ReadData (packet_chunk jenv (sample_packet 7 5000)))] relay_state)) =
     packet_chunk jenv (sample_packet 7 5000)"
proof -
  have run: "server_run jenv relay_state [ReadEvent 0 (ReadData (packet_chunk jenv (sample_packet 7 5000)))]
      (after_packet jenv 0 (sample_packet 7 5000))"
    using relay_packet_step [OF disjI1 [OF refl]] by (auto simp: server_run_Cons)
  have b: "GetNodeB (live relay_state) (registry relay_state) = Some 1" by (simp add: GetNodeB_def)
  show ?thesis
    using relay_to_node_b [OF reachable_relay [OF jenv_laws] run b after_packet_state(4) [OF jenv_laws]]
      after_packet_queue [OF jenv_laws sample_sendable(1), of 7] after_packet_state(5) [OF jenv_laws] by simp
qed


text \<open>Node B's first module, read in one piece.\<close>

definition after_module :: "'j env \<Rightarrow> AccelModule \<Rightarrow> server" where
  "after_module E m = release 1 (on_read E 1 (ReadData (module_frame E m)) relay_state)"

lemma after_module_run:
  assumes "env_laws E" and "sendable_module m"
  shows "server_run E relay_state [ReadEvent 1 (ReadData (module_frame E m))] (after_module E m)"
    and "\<not> session_closed (objects (after_module E m) b)" and "wire (after_module E m) b = []"
    and "along E (module_by E) [ReadEvent 1 (ReadData (module_frame E m))] relay_state = [m]"
proof -
  have step: "server_step E relay_state (ReadEvent 1 (ReadData (module_frame E m))) (after_module E m)"
    unfolding after_module_def by (rule server_step.read) (simp_all add: read_enabled_def module_frame_def)
  then show "server_run E relay_state [ReadEvent 1 (ReadData (module_frame E m))] (after_module E m)"
    by (auto simp: server_run_Cons)
  note c = server_invD(1) [OF reachable_inv [OF reachable_relay [OF assms(1)]]]
  note x = extendsD(3,9) [OF extends_HandleLine [OF core_queues [OF core_line_taken [OF c, of 1 "module_frame E m"]],
        of E 1 "next_line (objects relay_state 1) (module_frame E m)"]]
  show "\<not> session_closed (objects (after_module E m) b)" "wire (after_module E m) b = []"
    using x by (simp_all add: after_module_def on_read_line Let_def)
  have "next_line (objects relay_state 1) (module_frame E m) = json_dump E (ToJson_module E m)"
    unfolding module_frame_def using built_lines_safe(2) [OF assms] by (simp add: next_line_frame)
  then have "module_by E (ReadEvent 1 (ReadData (module_frame E m))) relay_state = [m]"
    by (simp add: module_by_def module_in_built(1) [OF assms])
  then show "along E (module_by E) [ReadEvent 1 (ReadData (module_frame E m))] relay_state = [m]"
    using step by (simp add: exec_event_iff [symmetric] del: exec_event.simps)
qed

theorem relay_to_node_a_witness:
  "concat (write_queue (objects (after_module jenv sample_module) 0)) = module_frame jenv sample_module"
proof -
  note m = after_module_run [OF jenv_laws sample_module_sendable]
  have "GetNodeA (live relay_state) (registry relay_state) = Some 0" by (simp add: GetNodeA_def)
  from relay_to_node_a [OF reachable_relay [OF jenv_laws] m(1) this m(2)]
  show ?thesis unfolding m(3,4) by simp
qed

end
