(* ===== verification/RelaySpec.thy ===== *)
theory RelaySpec
  imports Relay
begin

text \<open>
  The relay without its mechanics: an abstract machine of peers and messages, and the proof
  that the server of \<open>src/server/\<close> implements it. The abstract machine knows no buffers,
  write queues, weak pointers, pending operations or object lifetimes: a peer is open or not,
  has a role, remembers the last packet it got through and owns the list of the messages it
  is due.
\<close>

subsection \<open>The abstract relay\<close>

datatype message = Hello string | Packet AccelPacket | Module AccelModule | Noise

record peer =
  peer_open :: bool
  peer_role :: string
  peer_last :: "AccelPacket option"
  inbox :: "message list"

definition new_peer :: peer where
  "new_peer = \<lparr>peer_open = True, peer_role = [], peer_last = None, inbox = []\<rparr>"

text \<open>The peers are numbered in the order they came; a role's holder is the open peer that has it.\<close>

definition holder :: "string \<Rightarrow> peer list \<Rightarrow> nat option" where
  "holder r ps = find (\<lambda>b. peer_open (ps ! b) \<and> peer_role (ps ! b) = r) [0..<length ps]"

definition deliver :: "string \<Rightarrow> message \<Rightarrow> peer list \<Rightarrow> peer list" where
  "deliver r m ps =
     (case holder r ps of None \<Rightarrow> ps | Some b \<Rightarrow> ps[b := (ps ! b)\<lparr>inbox := inbox (ps ! b) @ [m]\<rparr>])"

definition repeats :: "'j env \<Rightarrow> AccelPacket option \<Rightarrow> AccelPacket \<Rightarrow> bool" where
  "repeats E kept p = (case kept of None \<Rightarrow> False | Some q \<Rightarrow> IsDuplicate (llround_unspecified E) p q)"

fun receive :: "'j env \<Rightarrow> nat \<Rightarrow> message \<Rightarrow> peer list \<Rightarrow> peer list" where
  "receive E a (Hello r) ps =
     (if peer_role (ps ! a) = [] \<and> holder r ps = None then ps[a := (ps ! a)\<lparr>peer_role := r\<rparr>] else ps)"
| "receive E a (Packet p) ps =
     (if peer_role (ps ! a) \<noteq> k_role_A \<or> repeats E (peer_last (ps ! a)) p then ps
      else deliver k_role_B (Packet p) (ps[a := (ps ! a)\<lparr>peer_last := Some p\<rparr>]))"
| "receive E a (Module m) ps =
     (if peer_role (ps ! a) \<noteq> k_role_B then ps else deliver k_role_A (Module m) ps)"
| "receive E a Noise ps = ps"

text \<open>What a line says: whichever of the three parsers accepts it.\<close>

definition message_of :: "'j env \<Rightarrow> string \<Rightarrow> message" where
  "message_of E line =
     (if line = [] then Noise
      else case ParseJsonLine E line of
             failure _ \<Rightarrow> Noise
           | success json \<Rightarrow>
               (case (GetClientRole E json, ParseAccelPacket E json, ParseAccelModule E json) of
                  (success r, _, _) \<Rightarrow> Hello r
                | (_, success p, _) \<Rightarrow> Packet p
                | (_, _, success m) \<Rightarrow> Module m
                | _ \<Rightarrow> Noise))"

datatype action = Join | Leave nat | Line nat string | Quiet

fun relay_step :: "'j env \<Rightarrow> action \<Rightarrow> peer list \<Rightarrow> peer list" where
  "relay_step E Join ps = ps @ [new_peer]"
| "relay_step E (Leave a) ps = ps[a := (ps ! a)\<lparr>peer_open := False\<rparr>]"
| "relay_step E (Line a line) ps = receive E a (message_of E line) ps"
| "relay_step E Quiet ps = ps"

subsection \<open>How the server's states and events are read\<close>

fun frame_of :: "'j env \<Rightarrow> message \<Rightarrow> string" where
  "frame_of E (Packet p) = packet_frame E p"
| "frame_of E (Module m) = module_frame E m"
| "frame_of E _ = []"

definition action_of :: "event \<Rightarrow> server \<Rightarrow> action" where
  "action_of ev w =
     (case ev of
        AcceptEvent (Accepted (Some _)) \<Rightarrow> Join
      | AcceptEvent _ \<Rightarrow> Quiet
      | ReadEvent a (ReadFail _) \<Rightarrow> Leave a
      | ReadEvent a (ReadData chunk) \<Rightarrow> Line a (next_line (objects w a) chunk)
      | WriteEvent a None \<Rightarrow> Quiet
      | WriteEvent a (Some _) \<Rightarrow> Leave a)"

text \<open>
  A session stands for a peer: the same role and the same last packet, open as long as it is
  not closed; and while it is open, the bytes written and queued are the frames of its inbox.
\<close>

definition shows_peer :: "'j env \<Rightarrow> string \<Rightarrow> session \<Rightarrow> peer \<Rightarrow> bool" where
  "shows_peer E sent s p \<longleftrightarrow>
     peer_open p = (\<not> session_closed s) \<and> peer_role p = role s \<and> peer_last p = last_kept s \<and>
     (peer_open p \<longrightarrow> sent @ concat (write_queue s) = concat (map (frame_of E) (inbox p)))"

definition implements :: "'j env \<Rightarrow> server \<Rightarrow> peer list \<Rightarrow> bool" where
  "implements E w ps \<longleftrightarrow>
     length ps = next_addr w \<and> (\<forall>b < next_addr w. shows_peer E (wire w b) (objects w b) (ps ! b))"

lemma implementsD:
  assumes "implements E w ps"
  shows "length ps = next_addr w" and "b < next_addr w \<Longrightarrow> shows_peer E (wire w b) (objects w b) (ps ! b)"
  using assms by (simp_all add: implements_def)

subsection \<open>Lines\<close>

lemma message_of_cases:
  assumes "number_laws E"
  shows "role_in_line E line = (case message_of E line of Hello r \<Rightarrow> Some r | _ \<Rightarrow> None)"
    and "packet_in_line E s line =
       (case message_of E line of Packet p \<Rightarrow> if role s = k_role_A then Some p else None | _ \<Rightarrow> None)"
    and "module_in_line E s line =
       (case message_of E line of Module m \<Rightarrow> if role s = k_role_B then Some m else None | _ \<Rightarrow> None)"
proof -
  have "role_in_line E line = (case message_of E line of Hello r \<Rightarrow> Some r | _ \<Rightarrow> None) \<and>
    packet_in_line E s line =
       (case message_of E line of Packet p \<Rightarrow> if role s = k_role_A then Some p else None | _ \<Rightarrow> None) \<and>
    module_in_line E s line =
       (case message_of E line of Module m \<Rightarrow> if role s = k_role_B then Some m else None | _ \<Rightarrow> None)"
  proof (cases "line = [] \<or> (\<forall>json. ParseJsonLine E line \<noteq> success json)")
    case True
    then show ?thesis
      by (cases "ParseJsonLine E line") (auto simp: message_of_def role_in_line_def packet_in_line_def module_in_line_def)
  next
    case False
    then obtain json where l: "line \<noteq> []" "ParseJsonLine E line = success json" by blast
    note h = parsed_headers [OF assms, of json]
    have ex: "ParseAccelPacket E json = success p \<Longrightarrow> ParseAccelModule E json = success m \<Longrightarrow> False"
        "GetClientRole E json = success r \<Longrightarrow> ParseAccelPacket E json = success p \<Longrightarrow> False"
        "GetClientRole E json = success r \<Longrightarrow> ParseAccelModule E json = success m \<Longrightarrow> False" for p m r
      using h has_type_unique [of E json k_type_accel k_type_module] has_type_unique [of E json k_type_hello k_type_accel]
        has_type_unique [of E json k_type_hello k_type_module] by (auto simp: protocol_constants)
    show ?thesis
      using h ex unfolding message_of_def role_in_line_def packet_in_line_def module_in_line_def
      by (cases "GetClientRole E json"; cases "ParseAccelPacket E json"; cases "ParseAccelModule E json"; simp add: l; blast)
  qed
  then show "role_in_line E line = (case message_of E line of Hello r \<Rightarrow> Some r | _ \<Rightarrow> None)"
    and "packet_in_line E s line =
       (case message_of E line of Packet p \<Rightarrow> if role s = k_role_A then Some p else None | _ \<Rightarrow> None)"
    and "module_in_line E s line =
       (case message_of E line of Module m \<Rightarrow> if role s = k_role_B then Some m else None | _ \<Rightarrow> None)"
    by blast+
qed


subsection \<open>Roles and holders\<close>

lemma find_unique:
  assumes "b < n" and "P b" and "\<And>c. c < n \<Longrightarrow> P c \<Longrightarrow> c = b"
  shows "find P [0..<n] = Some b"
proof -
  have "find P [0..<n] \<noteq> None" using assms(1,2) by (auto simp: find_None_iff)
  then obtain c where "find P [0..<n] = Some c" by blast
  then show ?thesis using assms(3) by (auto simp: find_Some_iff)
qed

lemma holder_GetNode:
  assumes "implements E w ps" and "core w" and "life_ok w" and "addresses_ok w" and "r = k_role_A \<or> r = k_role_B"
  shows "holder r ps = GetNode r (live w) (registry w)"
proof -
  have peer: "peer_open (ps ! b) \<and> peer_role (ps ! b) = r \<longleftrightarrow> GetNode r (live w) (registry w) = Some b"
    if "b < next_addr w" for b
    using implementsD(2) [OF assms(1) that] GetNode_iff [OF assms(2,5), of b] assms(3) that
    by (auto simp: shows_peer_def life_ok_def)
  show ?thesis
  proof (cases "GetNode r (live w) (registry w)")
    case None
    then show ?thesis using peer implementsD(1) [OF assms(1)] by (auto simp: holder_def find_None_iff)
  next
    case (Some b)
    then have "b < next_addr w"
      using GetNode_iff [OF assms(2,5), of b] assms(4) by (auto simp: addresses_ok_def)
    then show ?thesis using peer Some unfolding holder_def implementsD(1) [OF assms(1)] Some
      by (intro find_unique) auto
  qed
qed

lemma role_Forward [simp]:
  "role (objects (ForwardAccelPacketToNodeB E a p w) b) = role (objects w b)"
  "role (objects (ForwardAccelModuleToNodeA E a m w) b) = role (objects w b)"
  by (auto simp: ForwardAccelPacketToNodeB_def ForwardAccelModuleToNodeA_def SendJson_enqueue split: option.splits)

lemma role_Handle [simp]:
  "role (objects (HandleAccelPacket E a json w) b) = role (objects w b)"
  "role (objects (HandleModulePacket E a json w) b) = role (objects w b)"
  by (auto simp: HandleAccelPacket_def HandleModulePacket_def Let_def split: Result.splits)

lemma role_HandleLine:
  assumes "core w" and "live w a"
  shows "role (objects (HandleLine E a line w) b) =
     (case role_in_line E line of
        Some r \<Rightarrow> if b = a \<and> role (objects w a) = [] \<and> GetNode r (live w) (registry w) = None then r
                  else role (objects w b)
      | None \<Rightarrow> role (objects w b))"
proof (cases "role_in_line E line")
  case None
  then show ?thesis
    by (auto simp: HandleLine_def role_in_line_def simp del: GetMessageType_iff split: Result.splits)
next
  case (Some r)
  define v where "v = emit (ClientRole r) w"
  have v: "core v" "live v a" "live v = live w" "registry v = registry w" "objects v = objects w"
    using assms by (simp_all add: v_def)
  note h = HandleLine_role [OF Some, of a w, folded v_def]
  have "role (objects (RegisterRole a r v) b) = role (objects w b)" if "b \<noteq> a \<or> role (objects w a) \<noteq> []"
    using that by (auto simp: RegisterRole_def v split: prod.splits)
  moreover have "role (objects (RegisterRole a r v) a) = (if GetNode r (live w) (registry w) = None then r else [])"
    if "role (objects w a) = []"
    using RegisterRole_outcome(1,2) [OF v(1,2) _ h [THEN conjunct2]] that by (simp add: v)
  ultimately show ?thesis using Some h [THEN conjunct1]
    by (cases "b = a"; cases "role (objects w a) = []"; simp)
qed


lemma role_on_read:
  assumes "core w" and "live w a"
  shows "role (objects (on_read E a (ReadData chunk) w) b) =
     (case role_in_line E (next_line (objects w a) chunk) of
        Some r \<Rightarrow> if b = a \<and> role (objects w a) = [] \<and> GetNode r (live w) (registry w) = None then r
                  else role (objects w b)
      | None \<Rightarrow> role (objects w b))"
  using role_HandleLine [OF core_line_taken [OF assms(1), of a chunk], of a E "next_line (objects w a) chunk" b] assms(2)
  by (cases "b = a"; cases "role_in_line E (next_line (objects w a) chunk)"; simp add: on_read_line Let_def)

subsection \<open>The inboxes\<close>

lemma length_deliver [simp]: "length (deliver r m ps) = length ps"
  by (simp add: deliver_def split: option.splits)

lemma holder_below: "holder r ps = Some b \<Longrightarrow> b < length ps"
  by (auto simp: holder_def find_Some_iff)

lemma nth_deliver:
  "b < length ps \<Longrightarrow> deliver r m ps ! b =
     (if holder r ps = Some b then (ps ! b)\<lparr>inbox := inbox (ps ! b) @ [m]\<rparr> else ps ! b)"
  by (auto simp: deliver_def split: option.splits)

lemma holder_last [simp]: "holder r (ps[a := (ps ! a)\<lparr>peer_last := x\<rparr>]) = holder r ps"
proof -
  have "(\<lambda>b. peer_open (ps[a := (ps ! a)\<lparr>peer_last := x\<rparr>] ! b) \<and> peer_role (ps[a := (ps ! a)\<lparr>peer_last := x\<rparr>] ! b) = r) =
      (\<lambda>b. peer_open (ps ! b) \<and> peer_role (ps ! b) = r)"
    if "a < length ps" using that by (auto simp: fun_eq_iff nth_list_update)
  then show ?thesis by (cases "a < length ps") (simp_all add: holder_def list_update_beyond)
qed

lemma repeats_last: "repeats E (last_kept s) p = is_repeat E s p"
  by (simp add: repeats_def last_kept_def is_repeat_def)

lemma last_kept_filter: "filter_view s = filter_view t \<Longrightarrow> last_kept s = last_kept t"
  by (simp add: filter_view_def)

lemma last_kept_simps [simp]:
  "last_kept (accept_packet p s) = Some p" "last_kept (drop_packet s) = last_kept s"
  by (simp_all add: last_kept_def accept_packet_def drop_packet_def)

subsection \<open>One step\<close>

lemma implements_line:
  assumes "implements E w ps" and "core w" and "life_ok w" and "addresses_ok w" and "live w a" and "number_laws E"
  shows "implements E (on_read E a (ReadData chunk) w) (receive E a (message_of E (next_line (objects w a) chunk)) ps)"
proof -
  define l where "l = next_line (objects w a) chunk"
  define w' where "w' = on_read E a (ReadData chunk) w"
  note c = core_line_taken [OF assms(2), of a chunk]
  note x = extendsD(2,3,9) [OF extends_HandleLine [OF core_queues [OF c], of E a l]]
  have frame: "next_addr w' = next_addr w" "wire w' = wire w" "session_closed (objects w' b) = session_closed (objects w b)" for b
    using x by (simp_all add: w'_def on_read_line Let_def l_def [symmetric])
  have queue: "write_queue (objects w' b) = write_queue (objects w b) @ sent_to E b (forwards E w a l)" for b
    unfolding w'_def l_def by (rule queue_on_read [OF assms(2,5)])
  have kept: "last_kept (objects w' b) = last_kept (if b = a then filter_packet E (packet_in_line E (objects w a) l) (objects w a)
      else objects w b)" for b
    unfolding w'_def l_def by (rule last_kept_filter [OF filter_on_read])
  have role: "role (objects w' b) = (case role_in_line E l of
        Some r \<Rightarrow> if b = a \<and> role (objects w a) = [] \<and> GetNode r (live w) (registry w) = None then r else role (objects w b)
      | None \<Rightarrow> role (objects w b))" for b
    unfolding w'_def l_def by (rule role_on_read [OF assms(2,5)])
  note m = message_of_cases [OF assms(6), where line = l]
  note hold = holder_GetNode [OF assms(1-4)]
  note D = implementsD [OF assms(1)]
  have a: "a < next_addr w" using assms(4,5) by (simp add: addresses_ok_def)
  note pa = D(2) [OF a, unfolded shows_peer_def]
  have "shows_peer E (wire w' b) (objects w' b) (receive E a (message_of E l) ps ! b)" if b: "b < next_addr w" for b
  proof (cases "message_of E l")
    case (Hello r)
    then have "r = k_role_A \<or> r = k_role_B" using HandleLine_role [of E l r a w] m(1) by simp
    then show ?thesis using hold [of r] D(2) [OF b] D(1) b pa Hello m
      by (auto simp: shows_peer_def frame queue kept role forwards_def nth_list_update)
  next
    case (Packet p)
    show ?thesis using hold [of k_role_B] D(2) [OF b] D(1) b pa Packet m
      by (auto simp: shows_peer_def frame queue kept role forwards_def nth_list_update nth_deliver repeats_last
          filter_packet_def packet_frame_def sent_to_def split: option.splits)
  next
    case (Module x)
    show ?thesis using hold [of k_role_A] D(2) [OF b] D(1) b pa Module m
      by (auto simp: shows_peer_def frame queue kept role forwards_def nth_list_update nth_deliver
          module_frame_def sent_to_def split: option.splits)
  next
    case Noise
    then show ?thesis using D(2) [OF b] m
      by (simp add: shows_peer_def frame queue kept role forwards_def)
  qed
  moreover have "length (receive E a (message_of E l) ps) = next_addr w"
    using D(1) by (cases "message_of E l") simp_all
  ultimately show ?thesis by (simp add: implements_def frame(1) flip: l_def w'_def)
qed


lemma implements_release [simp]: "implements E (release a w) ps = implements E w ps"
  by (simp add: implements_def)

lemma implements_closed:
  assumes "implements E w ps" and "next_addr w' = next_addr w" and "session_closed (objects w' a)"
    and "role (objects w' a) = role (objects w a)" and "last_kept (objects w' a) = last_kept (objects w a)"
    and "\<And>b. b \<noteq> a \<Longrightarrow> objects w' b = objects w b \<and> wire w' b = wire w b"
  shows "implements E w' (ps[a := (ps ! a)\<lparr>peer_open := False\<rparr>])"
proof -
  have "shows_peer E (wire w' b) (objects w' b) (ps[a := (ps ! a)\<lparr>peer_open := False\<rparr>] ! b)" if "b < next_addr w" for b
    using implementsD(2) [OF assms(1) that] implementsD(1) [OF assms(1)] assms(3-6) that
    by (cases "b = a") (auto simp: shows_peer_def)
  then show ?thesis using implementsD(1) [OF assms(1)] by (simp add: implements_def assms(2))
qed

lemma implements_accept:
  assumes "implements E w ps"
  shows "implements E (on_accept r w) (relay_step E (action_of (AcceptEvent r) w) ps)"
  using assms
  by (auto simp: implements_def action_of_def on_accept_def create_session_def AcceptNext_def Start_session_def
      ReadNextLine_def shows_peer_def new_peer_def new_session_def last_kept_def Let_def nth_append less_Suc_eq
      split: accept_completion.splits option.splits)

lemma implements_written:
  assumes "implements E w ps" and "server_inv w" and "live w a" and "write_pending (objects w a) = Some m"
  shows "implements E (on_write a None (put_wire a m w)) ps"
proof -
  obtain q where "write_queue (objects w a) = m # q" using pending_head [OF assms(2-4)] by blast
  then show ?thesis using assms(1,4)
    by (auto simp: implements_def shows_peer_def on_write_success last_kept_def)
qed

lemma implements_step:
  assumes "server_step E w ev w'" and "server_inv w" and "life_ok w" and "number_laws E" and "implements E w ps"
  shows "implements E w' (relay_step E (action_of ev w) ps)"
  using assms(1)
proof cases
  case (accept r)
  then show ?thesis using implements_accept [OF assms(5)] by simp
next
  case (read a r)
  show ?thesis
  proof (cases r)
    case (ReadFail e)
    have "implements E (on_read E a r w) (ps[a := (ps ! a)\<lparr>peer_open := False\<rparr>])"
      by (rule implements_closed [OF assms(5)])
        (auto simp: ReadFail on_read_def objects_Close last_kept_def Let_def)
    then show ?thesis using read by (simp add: action_of_def ReadFail)
  next
    case (ReadData chunk)
    then show ?thesis
      using implements_line [OF assms(5) server_invD(1) [OF assms(2)] assms(3) server_invD(2) [OF assms(2)] _ assms(4)] read
      by (simp add: action_of_def)
  qed
next
  case (written a m)
  then show ?thesis using implements_written [OF assms(5,2)] by (simp add: action_of_def)
next
  case (write_failed a m error n)
  have "implements E (on_write a (Some error) (put_wire a (take n m) w)) (ps[a := (ps ! a)\<lparr>peer_open := False\<rparr>])"
    by (rule implements_closed [OF assms(5)]) (auto simp: on_write_def objects_Close last_kept_def Let_def)
  then show ?thesis using write_failed by (simp add: action_of_def)
qed

text \<open>The actions of a run, and the abstract relay after them.\<close>

fun actions :: "'j env \<Rightarrow> event list \<Rightarrow> server \<Rightarrow> action list" where
  "actions E [] w = []"
| "actions E (ev # evs) w =
     action_of ev w # (case exec_event E ev w of None \<Rightarrow> [] | Some v \<Rightarrow> actions E evs v)"

lemma implements_run:
  "server_run E w evs w' \<Longrightarrow> server_inv w \<Longrightarrow> life_ok w \<Longrightarrow> number_laws E \<Longrightarrow> implements E w ps \<Longrightarrow>
   implements E w' (fold (relay_step E) (actions E evs w) ps)"
proof (induction arbitrary: ps rule: server_run.induct)
  case (run_cons w ev v evs w')
  then show ?case
    using implements_step [OF run_cons.hyps(1) run_cons.prems] server_step_inv [OF run_cons.hyps(1) run_cons.prems(1)]
      life_step [OF run_cons.hyps(1) run_cons.prems(1,2)]
    by (simp add: exec_event_iff [symmetric] del: exec_event.simps)
qed simp

lemma started_implements: "implements E started []"
  by (simp add: implements_def started_def AcceptNext_def initial_server_def)

lemma started_life: "life_ok started"
  by (simp add: life_ok_def started_def AcceptNext_def initial_server_def)

text \<open>
  C2. The server refines the abstract relay. After any run, every session shows its peer of
  the abstract relay run over the same connections, lines and breakdowns: it is open exactly
  when the peer is, and has the peer's role and last packet; while it is open, the bytes
  written to it and queued for it are the frames of the peer's inbox (nothing is claimed of
  the bytes of a closed session, whose queue may have been cleared); and the registry names
  the open peers with the roles.
\<close>

theorem server_refines_relay:
  assumes "number_laws E" and "server_run E started evs w"
  defines "ps \<equiv> fold (relay_step E) (actions E evs started) []"
  shows "length ps = next_addr w \<and> (\<forall>b < next_addr w. shows_peer E (wire w b) (objects w b) (ps ! b)) \<and>
     GetNodeA (live w) (registry w) = holder k_role_A ps \<and> GetNodeB (live w) (registry w) = holder k_role_B ps"
proof -
  have i: "implements E w ps"
    unfolding ps_def by (rule implements_run [OF assms(2) started_inv started_life assms(1) started_implements])
  have "reachable E w" using assms(2) by (auto simp: reachable_def)
  note h = holder_GetNode [OF i server_invD(1) [OF reachable_inv [OF this]] reachable_life [OF this]
      server_invD(2) [OF reachable_inv [OF this]]]
  show ?thesis using implementsD [OF i] h [of k_role_A] h [of k_role_B] by simp
qed

theorem server_refines_relay_witness:
  "holder k_role_A (fold (relay_step jenv) (actions jenv (relay_events jenv) started) []) = Some 0 \<and>
   length (fold (relay_step jenv) (actions jenv (relay_events jenv) started) []) = 2"
  using server_refines_relay [OF jenv_number_laws relay_run [OF jenv_laws, unfolded exec_events_iff]]
  by (simp add: GetNodeA_def)

subsection \<open>What each kind of client is sent\<close>

definition inbox_ok :: "peer \<Rightarrow> bool" where
  "inbox_ok p \<longleftrightarrow>
     (peer_role p = [] \<and> inbox p = []) \<or>
     (peer_role p = k_role_A \<and> list_all (\<lambda>m. \<exists>x. m = Module x) (inbox p)) \<or>
     (peer_role p = k_role_B \<and> list_all (\<lambda>m. \<exists>x. m = Packet x) (inbox p))"

lemma inbox_ok_update:
  "list_all inbox_ok ps \<Longrightarrow> (a < length ps \<Longrightarrow> inbox_ok (ps ! a) \<Longrightarrow> inbox_ok p) \<Longrightarrow> list_all inbox_ok (ps[a := p])"
  by (cases "a < length ps") (auto simp: list_all_length nth_list_update list_update_beyond)

lemma inbox_ok_deliver:
  assumes "list_all inbox_ok ps" and "(r = k_role_B \<and> (\<exists>x. m = Packet x)) \<or> (r = k_role_A \<and> (\<exists>x. m = Module x))"
  shows "list_all inbox_ok (deliver r m ps)"
proof (cases "holder r ps")
  case None
  then show ?thesis using assms(1) by (simp add: deliver_def)
next
  case (Some b)
  then have "peer_role (ps ! b) = r" "b < length ps" by (auto simp: holder_def find_Some_iff)
  moreover have "inbox_ok (ps ! b)" using assms(1) calculation(2) by (simp add: list_all_length)
  ultimately have "inbox_ok ((ps ! b)\<lparr>inbox := inbox (ps ! b) @ [m]\<rparr>)"
    using assms(2) by (auto simp: inbox_ok_def)
  then show ?thesis using assms(1) Some by (simp add: deliver_def inbox_ok_update)
qed

lemma message_of_role: "message_of E line = Hello r \<Longrightarrow> r = k_role_A \<or> r = k_role_B"
  by (auto simp: message_of_def dest: GetClientRole_client split: if_splits Result.splits)

lemma inbox_ok_step: "list_all inbox_ok ps \<Longrightarrow> list_all inbox_ok (relay_step E ac ps)"
proof (induction E ac ps rule: relay_step.induct)
  case (3 E a line ps)
  show ?case
  proof (cases "message_of E line")
    case (Hello r)
    have "list_all inbox_ok (ps[a := (ps ! a)\<lparr>peer_role := r\<rparr>])" if "peer_role (ps ! a) = []"
      by (rule inbox_ok_update [OF 3]) (use that message_of_role [OF Hello] in \<open>auto simp: inbox_ok_def\<close>)
    then show ?thesis using 3 Hello by simp
  next
    case (Packet p)
    have "list_all inbox_ok (ps[a := (ps ! a)\<lparr>peer_last := Some p\<rparr>])"
      by (rule inbox_ok_update [OF 3]) (simp add: inbox_ok_def)
    then show ?thesis using 3 Packet by (auto intro!: inbox_ok_deliver)
  next
    case (Module m)
    then show ?thesis using 3 by (auto intro!: inbox_ok_deliver)
  qed (simp add: 3)
next
  case (2 E a ps)
  have "list_all inbox_ok (ps[a := (ps ! a)\<lparr>peer_open := False\<rparr>])"
    by (rule inbox_ok_update [OF 2]) (simp add: inbox_ok_def)
  then show ?case by simp
qed (auto simp: inbox_ok_def new_peer_def)

lemma inbox_ok_fold: "list_all inbox_ok ps \<Longrightarrow> list_all inbox_ok (fold (relay_step E) as ps)"
  by (induction as arbitrary: ps) (auto simp: inbox_ok_step)

lemma typed_frames:
  "list_all (\<lambda>m. \<exists>x. m = Module x) ms \<Longrightarrow> \<exists>xs. concat (map (frame_of E) ms) = concat (map (module_frame E) xs)"
  "list_all (\<lambda>m. \<exists>x. m = Packet x) ms \<Longrightarrow> \<exists>xs. concat (map (frame_of E) ms) = concat (map (packet_frame E) xs)"
proof -
  assume "list_all (\<lambda>m. \<exists>x. m = Module x) ms"
  then obtain xs where "ms = map Module xs" using ex_map_conv [of ms Module] by (auto simp: list_all_iff)
  then show "\<exists>xs. concat (map (frame_of E) ms) = concat (map (module_frame E) xs)"
    by (intro exI [of _ xs]) (simp add: comp_def)
next
  assume "list_all (\<lambda>m. \<exists>x. m = Packet x) ms"
  then obtain xs where "ms = map Packet xs" using ex_map_conv [of ms Packet] by (auto simp: list_all_iff)
  then show "\<exists>xs. concat (map (frame_of E) ms) = concat (map (packet_frame E) xs)"
    by (intro exI [of _ xs]) (simp add: comp_def)
qed

text \<open>
  C14. Every connection carries one kind of message. In any reachable state the bytes an open
  session has been sent or is still due are frames of modules when it is Node A's, frames of
  packets when it is Node B's, and none at all when the client has no role.
\<close>

theorem one_kind_per_connection:
  assumes "number_laws E" and "server_run E started evs w" and "b < next_addr w" and "\<not> session_closed (objects w b)"
  defines "sent \<equiv> wire w b @ concat (write_queue (objects w b))"
  shows "(role (objects w b) = [] \<and> sent = []) \<or>
     (role (objects w b) = k_role_A \<and> (\<exists>ms. sent = concat (map (module_frame E) ms))) \<or>
     (role (objects w b) = k_role_B \<and> (\<exists>ps. sent = concat (map (packet_frame E) ps)))"
proof -
  define ps where "ps = fold (relay_step E) (actions E evs started) []"
  have i: "implements E w ps"
    unfolding ps_def by (rule implements_run [OF assms(2) started_inv started_life assms(1) started_implements])
  have "list_all inbox_ok ps" unfolding ps_def by (rule inbox_ok_fold) simp
  then have "inbox_ok (ps ! b)" using implementsD(1) [OF i] assms(3) by (simp add: list_all_length)
  moreover have "role (objects w b) = peer_role (ps ! b)" "sent = concat (map (frame_of E) (inbox (ps ! b)))"
    using implementsD(2) [OF i assms(3)] assms(4) by (simp_all add: shows_peer_def sent_def)
  ultimately show ?thesis using typed_frames [of "inbox (ps ! b)" E] by (auto simp: inbox_ok_def)
qed

theorem one_kind_per_connection_witness:
  "\<exists>ps. concat (write_queue (objects (after_packet jenv 0 (sample_packet 7 5000)) 1)) =
     concat (map (packet_frame jenv) ps)"
proof -
  note i = reachable_inv [OF reachable_relay [OF jenv_laws]]
  have "role (objects relay_state 1) = k_role_B" using relay_simps(14) by simp
  then have r: "role (objects (after_packet jenv 0 (sample_packet 7 5000)) 1) = k_role_B"
      "1 < next_addr (after_packet jenv 0 (sample_packet 7 5000))"
    using role_step [OF relay_packet_step [OF disjI1 [OF refl], where E = jenv and p = "sample_packet 7 5000"] i, of 1]
    by simp_all
  show ?thesis
    using one_kind_per_connection [OF jenv_number_laws after_packet_run [OF jenv_laws disjI1 [OF refl]] r(2)
        after_packet_state(4) [OF jenv_laws]] r(1) by (simp add: after_packet_state(5) [OF jenv_laws])
qed

end
