(* ===== verification/TcpClient.thy ===== *)
theory TcpClient
  imports Framing Environment
begin

text \<open>
  \<open>src/common/tcp_client.cpp\<close>: the blocking client both nodes use. The state is what the code
  can observe of its socket and the bytes read but not yet taken; \<open>client_sent\<close> records what has
  been handed to the network. The results of the Boost.Asio calls are arguments: an error
  with its message, or success. Every operation returns its result, the caller's
  \<open>error_message\<close> after the call, and the client.
\<close>

record TcpClient =
  client_open :: bool
  input_buf :: string
  client_sent :: string

definition new_client :: TcpClient where
  "new_client = \<lparr>client_open = False, input_buf = [], client_sent = []\<rparr>"

text \<open>
  \<open>resolve\<close> fails with a message; \<open>connect\<close> fails with a message and leaves the socket open
  or closed; a write fails with a message after handing over a prefix of the bytes; a read
  fails with a message, possibly after some bytes, or delivers bytes.
\<close>

datatype connect_result = Connected | ConnectFailed string bool
datatype write_result = Written | WriteFailed string nat
datatype read_result = Received string | ReadFailed string string

definition IsConnected :: "TcpClient \<Rightarrow> bool" where
  "IsConnected c = client_open c"

definition Connect ::
  "string option \<Rightarrow> connect_result \<Rightarrow> string \<Rightarrow> TcpClient \<Rightarrow> bool \<times> string \<times> TcpClient" where
  "Connect resolve_error connect error_message c =
     (case resolve_error of
        Some message \<Rightarrow> (False, ''resolve failed: '' @ message, c)
      | None \<Rightarrow>
          (case connect of
             ConnectFailed message still_open \<Rightarrow>
               (False, ''connect failed: '' @ message, c\<lparr>client_open := still_open\<rparr>)
           | Connected \<Rightarrow> (True, error_message, c\<lparr>client_open := True\<rparr>)))"

text \<open>The message \<open>WriteLine\<close> writes: the line, with a newline unless it ends in one.\<close>

definition client_frame :: "string \<Rightarrow> string" where
  "client_frame line =
     (if line = [] \<or> last line \<noteq> newline then line @ [newline] else line)"

definition WriteLine :: "write_result \<Rightarrow> string \<Rightarrow> string \<Rightarrow> TcpClient \<Rightarrow> bool \<times> string \<times> TcpClient" where
  "WriteLine result line error_message c =
     (if \<not> IsConnected c then (False, ''socket is not connected'', c)
      else
        let message = client_frame line in
        case result of
          WriteFailed error n \<Rightarrow>
            (False, ''write failed: '' @ error, c\<lparr>client_sent := client_sent c @ take n message\<rparr>)
        | Written \<Rightarrow> (True, error_message, c\<lparr>client_sent := client_sent c @ message\<rparr>))"

definition WriteJson ::
  "'j env \<Rightarrow> write_result \<Rightarrow> 'j \<Rightarrow> string \<Rightarrow> TcpClient \<Rightarrow> bool \<times> string \<times> TcpClient" where
  "WriteJson E result json error_message c = WriteLine result (json_dump E json) error_message c"

text \<open>
  \<open>read_until\<close> returns successfully once the buffer holds a newline; \<open>Received\<close> carries the
  bytes it added. \<open>line\<close> is cleared first, whatever happens.
\<close>

definition ReadLine :: "read_result \<Rightarrow> string \<Rightarrow> TcpClient \<Rightarrow> bool \<times> string \<times> string \<times> TcpClient" where
  "ReadLine result error_message c =
     (if \<not> IsConnected c then (False, [], ''socker is not connected'', c)
      else
        case result of
          ReadFailed error chunk \<Rightarrow>
            (False, [], ''read failed: '' @ error, c\<lparr>input_buf := input_buf c @ chunk\<rparr>)
        | Received chunk \<Rightarrow>
            let (line, rest) = getline (input_buf c @ chunk)
            in (True, strip_cr line, error_message, c\<lparr>input_buf := rest\<rparr>))"

definition read_possible :: "TcpClient \<Rightarrow> read_result \<Rightarrow> bool" where
  "read_possible c result \<longleftrightarrow>
     (case result of
        Received chunk \<Rightarrow> newline \<in> set (input_buf c @ chunk) \<and> (newline \<in> set (input_buf c) \<longrightarrow> chunk = [])
      | ReadFailed _ _ \<Rightarrow> newline \<notin> set (input_buf c))"

definition Close_client :: "TcpClient \<Rightarrow> TcpClient" where
  "Close_client c = (if client_open c then c\<lparr>client_open := False\<rparr> else c)"

subsection \<open>Lines out\<close>

interpretation client_writer: line_writer client_frame
  by unfold_locales (auto simp: client_frame_def dest: last_in_set)

lemma client_frame_newline: "last (client_frame l) = newline" and client_frame_nonempty: "client_frame l \<noteq> []"
  by (auto simp: client_frame_def)

fun WriteLines :: "string list \<Rightarrow> TcpClient \<Rightarrow> TcpClient" where
  "WriteLines [] c = c"
| "WriteLines (l # ls) c = (case WriteLine Written l [] c of (_, _, c') \<Rightarrow> WriteLines ls c')"

lemma WriteLines_sent:
  "client_open c \<Longrightarrow> WriteLines ls c = c\<lparr>client_sent := client_sent c @ concat (map client_frame ls)\<rparr>"
  by (induction ls arbitrary: c) (auto simp: WriteLine_def IsConnected_def Let_def)

subsection \<open>Lines in\<close>

fun ReadLines :: "read_result list \<Rightarrow> TcpClient \<Rightarrow> string list \<times> TcpClient" where
  "ReadLines [] c = ([], c)"
| "ReadLines (r # rs) c =
     (case ReadLine r [] c of
        (success, line, _, c') \<Rightarrow>
          if success then let (ls, c'') = ReadLines rs c' in (line # ls, c'') else ([], c'))"

text \<open>A run of successful reads the network can produce, and the bytes it delivers.\<close>

fun read_run :: "string list \<Rightarrow> TcpClient \<Rightarrow> bool" where
  "read_run [] c \<longleftrightarrow> True"
| "read_run (chunk # chunks) c \<longleftrightarrow>
     read_possible c (Received chunk) \<and>
     (case ReadLine (Received chunk) [] c of (_, _, _, c') \<Rightarrow> read_run chunks c')"

lemma ReadLine_take_line:
  assumes "client_open c" and "newline \<in> set (input_buf c @ chunk)"
  shows "\<exists>line rest. take_line (input_buf c @ chunk) = Some (line, rest) \<and>
     ReadLine (Received chunk) err c = (True, line, err, c\<lparr>input_buf := rest\<rparr>)"
proof -
  obtain l r where g: "getline (input_buf c @ chunk) = (l, r)" by fastforce
  show ?thesis using assms by (simp add: ReadLine_def IsConnected_def take_line_def g)
qed

lemma drain_take: "take_line buf = Some (l, rest) \<Longrightarrow> drain buf = (l # fst (drain rest), snd (drain rest))"
  by (subst drain.simps) (simp split: prod.splits)

lemma ReadLines_drain:
  assumes "client_open c" and "read_run chunks c" and "ReadLines (map Received chunks) c = (ls, c')"
  shows "drain (input_buf c @ concat chunks) =
           (ls @ fst (drain (input_buf c')), snd (drain (input_buf c'))) \<and>
         length ls = length chunks"
  using assms
proof (induction chunks arbitrary: c ls)
  case Nil
  then show ?case by simp
next
  case (Cons chunk chunks)
  have nl: "newline \<in> set (input_buf c @ chunk)"
    using Cons.prems(2) by (simp add: read_possible_def)
  obtain line rest where t: "take_line (input_buf c @ chunk) = Some (line, rest)"
    and r: "ReadLine (Received chunk) [] c = (True, line, [], c\<lparr>input_buf := rest\<rparr>)"
    using ReadLine_take_line [OF Cons.prems(1) nl] by blast
  obtain ls' where ls': "ReadLines (map Received chunks) (c\<lparr>input_buf := rest\<rparr>) = (ls', c')"
    and ls: "ls = line # ls'"
    using Cons.prems(3) by (auto simp: r split: prod.splits)
  have "drain (rest @ concat chunks) = (ls' @ fst (drain (input_buf c')), snd (drain (input_buf c'))) \<and>
      length ls' = length chunks"
    using Cons.IH [OF _ _ ls'] Cons.prems(1,2) by (simp add: r)
  then show ?case
    using drain_append [of "input_buf c @ chunk" "concat chunks"] drain_take [OF t]
      drain_append [of rest "concat chunks"]
    by (simp add: ls split: prod.splits)
qed

subsection \<open>Properties\<close>

text \<open>
  C18. Lines cross a connection between two clients unchanged and in order: whatever
  newline-free lines (not ending in a carriage return) are written on an open client,
  however the network cuts the bytes, the first n reads at the other end return the first n
  lines.
\<close>

theorem client_lines_roundtrip:
  assumes "client_open w" and "client_sent w = []" and "\<forall>l \<in> set lines. line_safe l"
    and "client_open r" and "input_buf r = []" and "read_run chunks r"
    and "concat chunks = client_sent (WriteLines lines w)"
  shows "fst (ReadLines (map Received chunks) r) = take (length chunks) lines"
proof -
  obtain ls c' where r: "ReadLines (map Received chunks) r = (ls, c')" by fastforce
  have "drain (concat chunks) = (lines, [])"
    using assms(2,7) client_writer.drain_frames [OF assms(3)] by (simp add: WriteLines_sent [OF assms(1)])
  then have "lines = ls @ fst (drain (input_buf c'))" and "length ls = length chunks"
    using ReadLines_drain [OF assms(4,6) r] assms(5) by simp_all
  then show ?thesis using r by simp
qed

theorem client_lines_roundtrip_witness:
  "fst (ReadLines (map Received [''ab'' @ [newline] @ ''c'', ''d'' @ [newline]])
     (new_client\<lparr>client_open := True\<rparr>)) = [''ab'', ''cd'']"
  using client_lines_roundtrip [of "new_client\<lparr>client_open := True\<rparr>" "[''ab'', ''cd'']"
      "new_client\<lparr>client_open := True\<rparr>" "[''ab'' @ [newline] @ ''c'', ''d'' @ [newline]]"]
  by (simp add: new_client_def line_safe_def WriteLines_sent client_frame_def read_possible_def
      ReadLine_def IsConnected_def getline_def strip_cr_def)

text \<open>A client that is not connected neither sends nor receives, and each call says so.\<close>

lemma client_not_connected:
  assumes "\<not> client_open c"
  shows "WriteLine res line err c = (False, ''socket is not connected'', c) \<and>
         ReadLine rd err c = (False, [], ''socker is not connected'', c) \<and>
         Close_client c = c"
  using assms by (simp add: WriteLine_def ReadLine_def IsConnected_def Close_client_def)

end
