(* ===== verification/ModuleNorm.thy ===== *)
theory ModuleNorm
  imports JsonProtocol
begin

text \<open>
  The module Node B computes for a packet (\<open>src/node_b/main.cpp\<close>): the Euclidean norm of the
  three axes in binary64 arithmetic, how far it is from the exact norm, and when it
  overflows. \<open>ulp64\<close> bounds the relative, \<open>tiny64\<close> the absolute error of one rounding.
\<close>

text \<open>\<open>std::sqrt(x * x + y * y + z * z)\<close>, each operation rounded.\<close>

definition module_of :: "AccelPacket \<Rightarrow> binary64" where
  "module_of packet =
     fsqrt64 (fadd64 (fadd64 (fmul64 (accel_x packet) (accel_x packet))
                             (fmul64 (accel_y packet) (accel_y packet)))
                     (fmul64 (accel_z packet) (accel_z packet)))"

subsection \<open>How accurate the module is\<close>

text \<open>Each rounding is off by at most \<open>2^-53\<close> of the result, or by half the least subnormal.\<close>

definition tiny64 :: real where
  "tiny64 = 2 powi (-1074) / 2"

lemma tiny64_nonneg: "0 \<le> tiny64"
  unfolding tiny64_def by (intro divide_nonneg_nonneg powi_2_nonneg) simp

definition ulp64 :: real where
  "ulp64 = 1 / 9007199254740992"

lemma ulp64_bounds: "0 \<le> ulp64" "ulp64 \<le> 1 / 1000000"
  by (simp_all add: ulp64_def)

lemma rounding_bound_le: "0 \<le> x \<Longrightarrow> rounding_bound x \<le> x * ulp64 + tiny64"
proof -
  assume x: "0 \<le> x"
  have "x * 2 powi (-52) = 2 * (x * ulp64)" by (simp add: ulp64_def)
  then show ?thesis using x tiny64_nonneg ulp64_bounds(1) unfolding rounding_bound_def tiny64_def
    by (simp only: max_def) (simp split: if_splits)
qed

text \<open>The rounded sum of squares, and a relative error for its root.\<close>

definition sum_of_squares :: "AccelPacket \<Rightarrow> real" where
  "sum_of_squares p = real64 (accel_x p) * real64 (accel_x p) + real64 (accel_y p) * real64 (accel_y p) +
     real64 (accel_z p) * real64 (accel_z p)"

definition rounded_sum :: "AccelPacket \<Rightarrow> binary64" where
  "rounded_sum packet = fadd64 (fadd64 (fmul64 (accel_x packet) (accel_x packet))
                             (fmul64 (accel_y packet) (accel_y packet)))
                     (fmul64 (accel_z packet) (accel_z packet))"

lemma square_rounded:
  assumes "sane_axis v"
  shows "is_finite64 (fmul64 v v)"
    and "\<bar>real64 (fmul64 v v) - real64 v * real64 v\<bar> \<le> real64 v * real64 v * ulp64 + tiny64"
    and "real64 v * real64 v \<le> 1000000000000"
proof -
  define k where "k = (1023::int)"
  have "\<bar>real64 v\<bar> * \<bar>real64 v\<bar> \<le> 1000000 * 1000000"
    using assms by (intro mult_mono) (simp_all add: sane_axis_def)
  then show le: "real64 v * real64 v \<le> 1000000000000" by simp
  have "(1000000000000::real) < 2 powi 40" by simp
  also have "\<dots> \<le> 2 powi k" by (rule powi_2_mono) (simp add: k_def)
  finally have lt: "\<bar>real64 v * real64 v\<bar> < 2 powi k" using le by simp
  have f: "is_finite64 v" using assms by (simp add: sane_axis_def)
  note e = fmul64_error [OF f f lt k_def]
  show "is_finite64 (fmul64 v v)" by (rule e(1))
  show "\<bar>real64 (fmul64 v v) - real64 v * real64 v\<bar> \<le> real64 v * real64 v * ulp64 + tiny64"
    using e(2) rounding_bound_le [of "\<bar>real64 v * real64 v\<bar>"] by simp
qed

lemma add_rounded:
  assumes "is_finite64 x" and "is_finite64 y" and "0 \<le> real64 x + real64 y" and "real64 x + real64 y \<le> 10000000000000"
  shows "is_finite64 (fadd64 x y)"
    and "\<bar>real64 (fadd64 x y) - (real64 x + real64 y)\<bar> \<le> (real64 x + real64 y) * ulp64 + tiny64"
proof -
  define k where "k = (1023::int)"
  have "(10000000000000::real) < 2 powi 44" by simp
  also have "\<dots> \<le> 2 powi k" by (rule powi_2_mono) (simp add: k_def)
  finally have lt: "\<bar>real64 x + real64 y\<bar> < 2 powi k" using assms(3,4) by simp
  note e = fadd64_error [OF assms(1,2) lt k_def]
  show "is_finite64 (fadd64 x y)" by (rule e(1))
  show "\<bar>real64 (fadd64 x y) - (real64 x + real64 y)\<bar> \<le> (real64 x + real64 y) * ulp64 + tiny64"
    using e(2) rounding_bound_le [of "\<bar>real64 x + real64 y\<bar>"] assms(3) by simp
qed


text \<open>The intermediate results have no sign.\<close>

fun unsigned64 :: "binary64 \<Rightarrow> bool" where
  "unsigned64 (Finite s m e) \<longleftrightarrow> \<not> s"
| "unsigned64 (Infinity s) \<longleftrightarrow> \<not> s"
| "unsigned64 NaN \<longleftrightarrow> False"

lemma unsigned64_round: "\<not> s \<Longrightarrow> unsigned64 (round64 s m e)"
  by (simp add: round64_def pack64_def split: prod.splits)

lemma unsigned64_square: "v \<noteq> NaN \<Longrightarrow> unsigned64 (fmul64 v v)"
  by (cases v) (simp_all add: unsigned64_round)

lemma unsigned64_add: "unsigned64 x \<Longrightarrow> unsigned64 y \<Longrightarrow> unsigned64 (fadd64 x y)"
  by (cases x; cases y) (auto simp: Let_def signed_at_def intro!: unsigned64_round add_nonneg_nonneg simp flip: not_le)

lemma unsigned64_real: "unsigned64 x \<Longrightarrow> 0 \<le> real64 x"
  by (cases x) (simp_all add: sgn64_def)

lemma sane_not_NaN: "sane_axis v \<Longrightarrow> v \<noteq> NaN"
  by (auto simp: sane_axis_def)

lemma rounded_sum_unsigned:
  "accel_x p \<noteq> NaN \<Longrightarrow> accel_y p \<noteq> NaN \<Longrightarrow> accel_z p \<noteq> NaN \<Longrightarrow> unsigned64 (rounded_sum p)"
  unfolding rounded_sum_def by (intro unsigned64_add unsigned64_square)

lemma round_step:
  assumes "\<bar>s - S\<bar> \<le> S * c + d" and "\<bar>r - s\<bar> \<le> s * u + t"
    and "0 \<le> S" "0 \<le> c" "c \<le> 1" "0 \<le> d" "0 \<le> u" "u \<le> (1::real)"
  shows "\<bar>r - S\<bar> \<le> S * (c + 2 * u) + (2 * d + t)"
proof -
  have "s * u \<le> (S + S * c + d) * u" using assms by (intro mult_right_mono) (simp_all add: abs_le_iff)
  also have "\<dots> = S * u + S * u * c + d * u" by (simp add: algebra_simps)
  also have "\<dots> \<le> S * u + S * u + d"
    using mult_left_le [of c "S * u"] mult_left_le [of u d] assms by simp
  finally show ?thesis using assms(1,2) by (simp add: algebra_simps)
qed

lemma rounded_sum_error:
  assumes "sane_packet p"
  shows "is_finite64 (rounded_sum p)"
    and "\<bar>real64 (rounded_sum p) - sum_of_squares p\<bar> \<le> sum_of_squares p * (5 * ulp64) + 13 * tiny64"
proof -
  define x y z where "x = accel_x p" and "y = accel_y p" and "z = accel_z p"
  have sane: "sane_axis x" "sane_axis y" "sane_axis z"
    using assms by (simp_all add: sane_packet_def x_def y_def z_def)
  note sx = square_rounded [OF sane(1)] and sy = square_rounded [OF sane(2)] and sz = square_rounded [OF sane(3)]
  note pos = unsigned64_square [OF sane_not_NaN, OF sane(1)] unsigned64_square [OF sane_not_NaN, OF sane(2)]
    unsigned64_square [OF sane_not_NaN, OF sane(3)]
  define xx yy zz a b c where "xx = real64 x * real64 x" and "yy = real64 y * real64 y" and "zz = real64 z * real64 z"
    and "a = fmul64 x x" and "b = fmul64 y y" and "c = fmul64 z z"
  have nn: "0 \<le> xx" "0 \<le> yy" "0 \<le> zz" by (simp_all add: xx_def yy_def zz_def)
  have tiny: "tiny64 \<le> 1" unfolding tiny64_def using powi_2_mono [of "-1074" 0] by simp
  note t = tiny64_nonneg tiny
  note bounds = sx(2,3) sy(2,3) sz(2,3)
  note bounds' = bounds [folded xx_def yy_def zz_def a_def b_def c_def]
  note nn' = unsigned64_real [OF pos(1), folded a_def] unsigned64_real [OF pos(2), folded b_def]
    unsigned64_real [OF pos(3), folded c_def]
  have ulps: "v * ulp64 \<le> 1000000" if "0 \<le> v" "v \<le> 1000000000000" for v
    using mult_mono [OF that(2) ulp64_bounds(2)] ulp64_bounds(1) by simp
  have up: "real64 a \<le> 2000000000000" "real64 b \<le> 2000000000000" "real64 c \<le> 2000000000000"
    using bounds' t ulps [OF nn(1) bounds'(2)] ulps [OF nn(2) bounds'(4)] ulps [OF nn(3) bounds'(6)]
    by linarith+
  have ab: "0 \<le> real64 a + real64 b" "real64 a + real64 b \<le> 10000000000000"
    using nn' up by linarith+
  define s where "s = fadd64 a b"
  note e1 = add_rounded [OF sx(1) sy(1) ab [unfolded a_def b_def], folded a_def b_def s_def]
  have su: "real64 s \<le> real64 a + real64 b + (real64 a + real64 b) * ulp64 + tiny64"
    using e1(2) by linarith
  have "(real64 a + real64 b) * ulp64 \<le> 10000000000000 * (1 / 1000000)"
    using ab ulp64_bounds by (intro mult_mono) simp_all
  then have su': "real64 s \<le> real64 a + real64 b + 10000001" using su t by linarith
  have sc: "0 \<le> real64 s + real64 c" "real64 s + real64 c \<le> 10000000000000"
    using unsigned64_real [OF unsigned64_add [OF pos(1,2)], folded a_def b_def s_def] nn' up su' t
    by linarith+
  note e2 = add_rounded [OF e1(1) sz(1) [folded c_def] sc]
  have r: "rounded_sum p = fadd64 s c"
    by (simp add: rounded_sum_def s_def a_def b_def c_def x_def y_def z_def)
  show "is_finite64 (rounded_sum p)" unfolding r by (rule e2(1))
  have "\<bar>(real64 a + real64 b) - (xx + yy)\<bar> \<le> (xx + yy) * ulp64 + 2 * tiny64"
    using bounds'(1,3) by (simp add: algebra_simps)
  from round_step [OF this e1(2)] have "\<bar>real64 s - (xx + yy)\<bar> \<le> (xx + yy) * (3 * ulp64) + 5 * tiny64"
    using nn t ulp64_bounds by simp
  moreover have "zz * ulp64 \<le> zz * (3 * ulp64)" using nn ulp64_bounds by (intro mult_left_mono) simp_all
  ultimately have "\<bar>(real64 s + real64 c) - (xx + yy + zz)\<bar> \<le> (xx + yy + zz) * (3 * ulp64) + 6 * tiny64"
    using bounds'(5) by (simp add: algebra_simps)
  from round_step [OF this e2(2)]
  have "\<bar>real64 (fadd64 s c) - (xx + yy + zz)\<bar> \<le> (xx + yy + zz) * (5 * ulp64) + 13 * tiny64"
    using nn t ulp64_bounds by simp
  moreover have "sum_of_squares p = xx + yy + zz"
    by (simp add: sum_of_squares_def xx_def yy_def zz_def x_def y_def z_def)
  ultimately show "\<bar>real64 (rounded_sum p) - sum_of_squares p\<bar> \<le> sum_of_squares p * (5 * ulp64) + 13 * tiny64"
    unfolding r by simp
qed

lemma sqrt_perturbed:
  assumes "0 \<le> S" and "0 \<le> T" and "\<bar>T - S\<bar> \<le> S * c + d" and "0 \<le> c" and "c \<le> 1" and "0 \<le> d"
  shows "\<bar>sqrt T - sqrt S\<bar> \<le> sqrt S * c + sqrt d"
proof -
  have "sqrt T \<le> sqrt (S * (1 + c) + d)" using assms(3) by (intro real_sqrt_le_mono) (simp add: algebra_simps)
  also have "\<dots> \<le> sqrt (S * (1 + c)) + sqrt d" using assms by (intro sqrt_add_le_add_sqrt) simp_all
  also have "sqrt (S * (1 + c)) \<le> sqrt (S * ((1 + c) * (1 + c)))"
    using assms(1,4) mult_right_mono [of 1 "1 + c" "1 + c"] by (intro real_sqrt_le_mono mult_left_mono) simp_all
  finally have up: "sqrt T \<le> sqrt S * (1 + c) + sqrt d" using assms(4) by (simp add: real_sqrt_mult)
  have "sqrt S * (1 - c) = sqrt (S * ((1 - c) * (1 - c)))" using assms(5) by (simp add: real_sqrt_mult)
  also have "\<dots> \<le> sqrt (S * (1 - c))"
    using assms(1,4,5) mult_right_mono [of "1 - c" 1 "1 - c"] by (intro real_sqrt_le_mono mult_left_mono) simp_all
  also have "\<dots> \<le> sqrt (T + d)" using assms(3) by (intro real_sqrt_le_mono) (simp add: algebra_simps)
  also have "\<dots> \<le> sqrt T + sqrt d" using assms by (intro sqrt_add_le_add_sqrt)
  finally show ?thesis using up by (simp add: algebra_simps)
qed


lemma rounded_sum_valid: "sendable_packet p \<Longrightarrow> valid64 (rounded_sum p)"
  by (simp add: rounded_sum_def sendable_packet_def fadd64_valid fmul64_valid)

lemma module_of_root: "module_of p = fsqrt64 (rounded_sum p)"
  by (simp add: module_of_def rounded_sum_def)

lemma root_error:
  assumes "valid64 v" and "is_finite64 v" and "unsigned64 v"
  shows "is_finite64 (fsqrt64 v)" and "\<bar>real64 (fsqrt64 v) - sqrt (real64 v)\<bar> \<le> sqrt (real64 v) * (2 * ulp64)"
proof -
  obtain m e where v: "v = Finite False m e" using assms(2,3) by (cases v) auto
  have u: "(2::real) powi (-52) = 2 * ulp64" by (simp add: ulp64_def)
  have "is_finite64 (fsqrt64 v) \<and> \<bar>real64 (fsqrt64 v) - sqrt (real64 v)\<bar> \<le> sqrt (real64 v) * (2 * ulp64)"
  proof (cases "m = 0")
    case True
    then show ?thesis by (simp add: v)
  next
    case False
    then show ?thesis using fsqrt64_error [of m e] assms(1) unfolding v u by simp
  qed
  then show "is_finite64 (fsqrt64 v)" and "\<bar>real64 (fsqrt64 v) - sqrt (real64 v)\<bar> \<le> sqrt (real64 v) * (2 * ulp64)"
    by simp_all
qed

lemma sqrt_tiny: "sqrt (13 * tiny64) \<le> 2 powi (-535)"
proof -
  define a where "a = (-1074 :: int)"
  have "13 * tiny64 \<le> 2 powi 4 * 2 powi a" unfolding tiny64_def a_def [symmetric] by simp
  also have "\<dots> = 2 powi (2 * (-535))" by (simp only: powi_2_add [symmetric]) (simp add: a_def)
  finally have "sqrt (13 * tiny64) \<le> sqrt (2 powi (2 * (-535)))" by (rule real_sqrt_le_mono)
  then show ?thesis by (simp only: sqrt_powi_even)
qed

lemma module_of_error:
  assumes "sane_packet p" and "sendable_packet p"
  shows "is_finite64 (module_of p)"
    and "\<bar>real64 (module_of p) - sqrt (sum_of_squares p)\<bar> \<le> sqrt (sum_of_squares p) * 2 powi (-50) + 2 powi (-534)"
proof -
  define S T R where "S = sum_of_squares p" and "T = real64 (rounded_sum p)" and "R = real64 (module_of p)"
  note sum = rounded_sum_error [OF assms(1)]
  have un: "unsigned64 (rounded_sum p)"
    using assms(1) by (intro rounded_sum_unsigned) (auto simp: sane_packet_def dest: sane_not_NaN)
  note root = root_error [OF rounded_sum_valid [OF assms(2)] sum(1) un]
  show "is_finite64 (module_of p)" unfolding module_of_root by (rule root(1))
  have S: "0 \<le> S" by (simp add: S_def sum_of_squares_def)
  have T: "0 \<le> T" using unsigned64_real [OF un] by (simp add: T_def)
  define q where "q = (2::real) powi (-535)"
  have q: "0 \<le> q" unfolding q_def by (rule powi_2_nonneg)
  have q2: "2 powi (-534) = 2 * q" using powi_2_add [of 1 "-535"] by (simp only: q_def) simp
  note u = ulp64_bounds
  have "\<bar>sqrt T - sqrt S\<bar> \<le> sqrt S * (5 * ulp64) + sqrt (13 * tiny64)"
    using S T sum(2) u tiny64_nonneg by (intro sqrt_perturbed) (simp_all add: S_def T_def)
  then have d: "\<bar>sqrt T - sqrt S\<bar> \<le> sqrt S * (5 * ulp64) + q" using sqrt_tiny by (simp add: q_def)
  have "sqrt T * (2 * ulp64) \<le> (sqrt S + sqrt S * (5 * ulp64) + q) * (2 * ulp64)"
    using d u by (intro mult_right_mono) (simp_all add: abs_le_iff)
  also have "\<dots> = sqrt S * (2 * ulp64) + sqrt S * ulp64 * (10 * ulp64) + q * (2 * ulp64)"
    by (simp add: algebra_simps)
  also have "\<dots> \<le> sqrt S * (2 * ulp64) + sqrt S * ulp64 + q"
  proof -
    have "sqrt S * ulp64 * (10 * ulp64) \<le> sqrt S * ulp64" using u S by (intro mult_left_le) simp_all
    moreover have "q * (2 * ulp64) \<le> q" using u q by (intro mult_left_le) simp_all
    ultimately show ?thesis by linarith
  qed
  finally have "\<bar>R - sqrt S\<bar> \<le> sqrt S * (8 * ulp64) + 2 * q"
    using root(2) d by (simp add: R_def T_def module_of_root algebra_simps)
  moreover have "8 * ulp64 = 2 powi (-50)" by (simp add: ulp64_def)
  ultimately show "\<bar>real64 (module_of p) - sqrt (sum_of_squares p)\<bar> \<le> sqrt (sum_of_squares p) * 2 powi (-50) + 2 powi (-534)"
    unfolding q2 by (simp only: R_def S_def)
qed

subsection \<open>Overflow\<close>

lemma round64_overflow:
  assumes "2 ^ 1024 \<le> real m * 2 powi e" shows "round64 s m e = Infinity s"
proof -
  define k where "k = (1024 :: int)"
  have a: "2 powi k \<le> real m * 2 powi e" using assms powi_2_nat [of k] by (simp add: k_def)
  have m: "m \<noteq> 0" using a less_le_trans [OF powi_2_pos [of k]] by (cases "m = 0") auto
  have "real m < 2 ^ bitlen m" using bitlen_upper [of m] by (simp only: of_nat_less_numeral_power_cancel_iff)
  then have "real m * 2 powi e < 2 powi int (bitlen m) * 2 powi e" by simp
  then have "2 powi k < (2::real) powi (int (bitlen m) + e)"
    using a by (simp only: powi_2_add) 
  then have "k < int (bitlen m) + e" by simp
  then have "971 < target_exponent m e" by (simp add: target_exponent_def k_def)
  then show ?thesis using m by (auto simp: round64_def pack64_def)
qed

lemma square_overflow:
  assumes "is_finite64 v" and "2 ^ 512 \<le> \<bar>real64 v\<bar>" shows "fmul64 v v = Infinity False"
proof -
  obtain s m e where v: "v = Finite s m e" using assms(1) by (rule is_finite64_cases)
  have "(2::real) ^ 512 * 2 ^ 512 \<le> (real m * 2 powi e) * (real m * 2 powi e)"
    using assms(2) unfolding v real64_abs by (intro mult_mono) simp_all
  also have "\<dots> = real (m * m) * 2 powi (e + e)" unfolding powi_2_add by simp
  finally have "2 ^ 1024 \<le> real (m * m) * 2 powi (e + e)" by (simp only: power_add [symmetric]) simp
  then show ?thesis by (simp add: v round64_overflow)
qed

lemma infinite_sum:
  "unsigned64 x \<Longrightarrow> unsigned64 y \<Longrightarrow> x = Infinity False \<or> y = Infinity False \<Longrightarrow> fadd64 x y = Infinity False"
  by (cases x; cases y) auto

lemma module_of_overflow:
  assumes "is_finite64 (accel_x p)" "is_finite64 (accel_y p)" "is_finite64 (accel_z p)"
    and "2 ^ 512 \<le> \<bar>real64 (accel_x p)\<bar> \<or> 2 ^ 512 \<le> \<bar>real64 (accel_y p)\<bar> \<or> 2 ^ 512 \<le> \<bar>real64 (accel_z p)\<bar>"
  shows "module_of p = Infinity False"
proof -
  have n: "accel_x p \<noteq> NaN" "accel_y p \<noteq> NaN" "accel_z p \<noteq> NaN" using assms(1-3) by auto
  note un = unsigned64_square [OF n(1)] unsigned64_square [OF n(2)] unsigned64_square [OF n(3)]
  have "rounded_sum p = Infinity False"
    using assms(4) square_overflow [OF assms(1)] square_overflow [OF assms(2)] square_overflow [OF assms(3)] un
      infinite_sum [OF un(1,2)] infinite_sum [OF unsigned64_add [OF un(1,2)] un(3)]
    unfolding rounded_sum_def by blast
  then show ?thesis by (simp add: module_of_root)
qed

subsection \<open>Properties of the module\<close>

text \<open>
  C24. For every packet with finite axes of at most a million, Node B's module is a finite
  number and differs from the exact Euclidean norm by at most \<open>2^-50\<close> of it, plus \<open>2^-534\<close>:
  the six roundings of \<open>std::sqrt(x * x + y * y + z * z)\<close> together.
\<close>

theorem module_accuracy:
  assumes "sane_packet p" and "sendable_packet p"
  shows "is_finite64 (module_of p) \<and>
    \<bar>real64 (module_of p) - sqrt (sum_of_squares p)\<bar> \<le> sqrt (sum_of_squares p) * 2 powi (-50) + 2 powi (-534)"
  using module_of_error [OF assms] by (rule conjI)

theorem module_accuracy_witness:
  "is_finite64 (module_of (sample_packet 7 5000))"
  using module_accuracy [OF sample_sane(1) sample_sendable(1)] by (rule conjunct1)

text \<open>
  C39. A valid packet with an axis of \<open>2^512\<close> or more, which the protocol lets through,
  overflows: its module is infinite, so no valid module message can be made of it.
\<close>

theorem module_overflow:
  assumes "sendable_packet p"
    and "2 ^ 512 \<le> \<bar>real64 (accel_x p)\<bar> \<or> 2 ^ 512 \<le> \<bar>real64 (accel_y p)\<bar> \<or> 2 ^ 512 \<le> \<bar>real64 (accel_z p)\<bar>"
  shows "module_of p = Infinity False \<and> \<not> sendable_module \<lparr>module_timestamp = ts, module_value = module_of p\<rparr>"
  using module_of_overflow [OF _ _ _ assms(2)] assms(1)
  by (simp add: sendable_packet_def sendable_module_def)

theorem module_overflow_witness:
  "module_of (default_packet\<lparr>accel_x := Finite False (2 ^ 52) 460\<rparr>) = Infinity False"
proof -
  have "sendable_packet (default_packet\<lparr>accel_x := Finite False (2 ^ 52) 460\<rparr>)"
    by (simp add: sendable_packet_def default_packet_def)
  moreover have "2 ^ 512 \<le> \<bar>real64 (accel_x (default_packet\<lparr>accel_x := Finite False (2 ^ 52) 460\<rparr>))\<bar>"
    by (simp add: sgn64_def)
  ultimately show ?thesis using module_overflow by blast
qed

end
