(* ===== verification/NodeB.thy ===== *)
theory NodeB
  imports TcpClient ModuleNorm
begin

text \<open>
  \<open>src/node_b/main.cpp\<close>: Node B connects, says hello, and answers every valid packet it reads
  with its module (the Euclidean norm). The results of the blocking network calls are
  arguments: one pair per round of the loop, the read and, if it comes to that, the write.
  The loop ends by \<open>return\<close> only; running out of arguments means it is still running.
\<close>

subsection \<open>Model\<close>

datatype node_output =
    Started | ConnectionError string | ConnectedTo string nat | SendError string | HelloSent | Waiting
  | ReadErrorOut string | InvalidJsonOut string | ProtocolErrorOut string | UnsupportedTypeOut string
  | InvalidPacketOut string | SendModuleErrorOut string | ProgressOut u64 u64 AccelPacket binary64

record NodeB =
  client :: TcpClient
  error_message :: string
  received_packets_count :: u64
  send_modules_count :: u64
  console :: "node_output list"

definition say :: "node_output \<Rightarrow> NodeB \<Rightarrow> NodeB" where
  "say out n = n\<lparr>console := console n @ [out]\<rparr>"

definition server_host :: string where "server_host = ''127.0.0.1''"
definition server_port :: nat where "server_port = 5555"

text \<open>One round of the loop: \<open>Some code\<close> when \<open>main\<close> returns in it.\<close>

definition node_b_round :: "'j env \<Rightarrow> read_result \<Rightarrow> write_result \<Rightarrow> NodeB \<Rightarrow> int option \<times> NodeB" where
  "node_b_round E rd wr n =
     (case ReadLine rd (error_message n) (client n) of
        (read_ok, line, err, c) \<Rightarrow>
          let n1 = n\<lparr>client := c, error_message := err\<rparr> in
          if \<not> read_ok then
            (Some exit_failure, (say (ReadErrorOut err) n1)\<lparr>client := Close_client c\<rparr>)
          else
            case ParseJsonLine E line of
              failure error \<Rightarrow> (None, say (InvalidJsonOut error) n1)
            | success json \<Rightarrow>
                (case GetMessageType E json of
                   failure error \<Rightarrow> (None, say (ProtocolErrorOut error) n1)
                 | success ty \<Rightarrow>
                     if ty \<noteq> k_type_accel then (None, say (UnsupportedTypeOut ty) n1)
                     else
                       case ParseAccelPacket E json of
                         failure error \<Rightarrow> (None, say (InvalidPacketOut error) n1)
                       | success packet \<Rightarrow>
                           let m = module_of packet;
                               accel_module = \<lparr>module_timestamp = accel_timestamp packet, module_value = m\<rparr>
                           in
                             (case WriteJson E wr (ToJson_module E accel_module) err c of
                                (write_ok, err', c') \<Rightarrow>
                                  let n2 = n1\<lparr>client := c', error_message := err'\<rparr> in
                                  if \<not> write_ok then
                                    (Some exit_failure, (say (SendModuleErrorOut err') n2)\<lparr>client := Close_client c'\<rparr>)
                                  else
                                    let n3 = n2\<lparr>received_packets_count := received_packets_count n2 + 1,
                                                send_modules_count := send_modules_count n2 + 1\<rparr>
                                    in (None,
                                        if received_packets_count n3 mod 50 = 0
                                        then say (ProgressOut (received_packets_count n3) (send_modules_count n3) packet m) n3
                                        else n3))))"

fun node_b_loop :: "'j env \<Rightarrow> (read_result \<times> write_result) list \<Rightarrow> NodeB \<Rightarrow> int option \<times> NodeB" where
  "node_b_loop E [] n = (None, n)"
| "node_b_loop E ((rd, wr) # rounds) n =
     (case node_b_round E rd wr n of
        (Some code, n') \<Rightarrow> (Some code, n')
      | (None, n') \<Rightarrow> node_b_loop E rounds n')"

definition new_node_b :: NodeB where
  "new_node_b = \<lparr>client = new_client, error_message = [], received_packets_count = 0,
     send_modules_count = 0, console = []\<rparr>"

definition node_b_main ::
  "'j env \<Rightarrow> string option \<Rightarrow> connect_result \<Rightarrow> write_result \<Rightarrow> (read_result \<times> write_result) list \<Rightarrow> int option \<times> NodeB" where
  "node_b_main E resolve_error connect hello rounds =
     (case Connect resolve_error connect [] (client new_node_b) of
        (conn_ok, err, c) \<Rightarrow>
          let n = (say Started new_node_b)\<lparr>client := c, error_message := err\<rparr> in
          if \<not> conn_ok then (Some exit_failure, say (ConnectionError err) n)
          else
            case WriteJson E hello (MakeHelloMessage E k_role_B) err c of
              (sent, err', c') \<Rightarrow>
                let n1 = (say (ConnectedTo server_host server_port) n)\<lparr>client := c', error_message := err'\<rparr> in
                if \<not> sent then (Some exit_failure, say (SendError err') n1)
                else node_b_loop E rounds (say Waiting (say HelloSent n1)))"

subsection \<open>What one round does\<close>

text \<open>The module a line asks for, if it is a valid packet.\<close>

definition answer :: "'j env \<Rightarrow> string \<Rightarrow> AccelModule option" where
  "answer E line =
     (case ParseJsonLine E line of
        failure _ \<Rightarrow> None
      | success json \<Rightarrow>
          if GetMessageType E json \<noteq> success k_type_accel then None
          else case ParseAccelPacket E json of
                 failure _ \<Rightarrow> None
               | success p \<Rightarrow> Some \<lparr>module_timestamp = accel_timestamp p, module_value = module_of p\<rparr>)"

lemma say_simps [simp]:
  "client (say d n) = client n" "error_message (say d n) = error_message n"
  "received_packets_count (say d n) = received_packets_count n" "send_modules_count (say d n) = send_modules_count n"
  by (simp_all add: say_def)

lemma node_b_round_line:
  assumes "client_open (client n)" and "ReadLine (Received chunk) (error_message n) (client n) = (True, line, err, c)"
  shows "fst (node_b_round E (Received chunk) Written n) = None \<and>
    client (snd (node_b_round E (Received chunk) Written n)) =
      c\<lparr>client_sent := client_sent c @ (case answer E line of None \<Rightarrow> [] | Some m \<Rightarrow> client_frame (json_dump E (ToJson_module E m)))\<rparr> \<and>
    received_packets_count (snd (node_b_round E (Received chunk) Written n)) =
      received_packets_count n + (case answer E line of None \<Rightarrow> 0 | Some m \<Rightarrow> 1) \<and>
    send_modules_count (snd (node_b_round E (Received chunk) Written n)) =
      send_modules_count n + (case answer E line of None \<Rightarrow> 0 | Some m \<Rightarrow> 1)"
proof -
  have "client_open c" using assms
    by (auto simp: ReadLine_def IsConnected_def split: if_splits prod.splits)
  then show ?thesis
    by (auto simp: node_b_round_def assms(2) answer_def Let_def WriteJson_def WriteLine_def IsConnected_def
        simp del: GetMessageType_iff split: Result.splits)
qed


subsection \<open>The loop over a run of reads\<close>

lemma ReadLine_sent:
  "ReadLine r err (c\<lparr>client_sent := s\<rparr>) =
     (case ReadLine r err c of (b, l, e, c') \<Rightarrow> (b, l, e, c'\<lparr>client_sent := s\<rparr>))"
  by (auto simp: ReadLine_def IsConnected_def split: read_result.splits prod.splits)

lemma ReadLines_sent: "fst (ReadLines rs (c\<lparr>client_sent := s\<rparr>)) = fst (ReadLines rs c)"
  by (induction rs arbitrary: c) (auto simp: ReadLine_sent split: prod.splits, metis fst_conv)

lemma ReadLine_received:
  "client_open c \<Longrightarrow> \<exists>line rest. ReadLine (Received chunk) err c = (True, line, err, c\<lparr>input_buf := rest\<rparr>) \<and>
     ReadLine (Received chunk) [] c = (True, line, [], c\<lparr>input_buf := rest\<rparr>)"
  by (auto simp: ReadLine_def IsConnected_def split: prod.splits)

definition module_line :: "'j env \<Rightarrow> AccelModule \<Rightarrow> string" where
  "module_line E m = client_frame (json_dump E (ToJson_module E m))"

lemma node_b_loop_lines:
  assumes "client_open (client n)"
  shows "fst (node_b_loop E (map (\<lambda>chunk. (Received chunk, Written)) chunks) n) = None \<and>
    client_sent (client (snd (node_b_loop E (map (\<lambda>chunk. (Received chunk, Written)) chunks) n))) =
      client_sent (client n) @
      concat (map (module_line E) (List.map_filter (answer E) (fst (ReadLines (map Received chunks) (client n))))) \<and>
    send_modules_count (snd (node_b_loop E (map (\<lambda>chunk. (Received chunk, Written)) chunks) n)) =
      send_modules_count n +
      of_nat (length (List.map_filter (answer E) (fst (ReadLines (map Received chunks) (client n)))))"
  using assms
proof (induction chunks arbitrary: n)
  case (Cons chunk chunks)
  obtain line rest where r: "ReadLine (Received chunk) (error_message n) (client n) =
        (True, line, error_message n, (client n)\<lparr>input_buf := rest\<rparr>)"
      "ReadLine (Received chunk) [] (client n) = (True, line, [], (client n)\<lparr>input_buf := rest\<rparr>)"
    using ReadLine_received [OF Cons.prems] by blast
  define n' where "n' = snd (node_b_round E (Received chunk) Written n)"
  note round = node_b_round_line [OF Cons.prems r(1), of E, folded n'_def]
  have eq: "node_b_round E (Received chunk) Written n = (None, n')"
    using round by (simp add: n'_def prod_eq_iff)
  have "client_open (client n')" using round Cons.prems by simp
  note ih = Cons.IH [OF this]
  have "fst (ReadLines (map Received chunks) (client n')) =
      fst (ReadLines (map Received chunks) ((client n)\<lparr>input_buf := rest\<rparr>))"
    using round by (simp add: ReadLines_sent)
  then show ?case using ih round r(2)
    by (simp add: eq List.map_filter_simps module_line_def split: option.splits prod.splits)
qed (simp add: List.map_filter_simps)

text \<open>
  A round fails when the read fails, or when the line it reads asks for a module and the write
  of that module fails.
\<close>

definition round_fails :: "'j env \<Rightarrow> read_result \<Rightarrow> write_result \<Rightarrow> NodeB \<Rightarrow> bool" where
  "round_fails E rd wr n =
     (case rd of
        ReadFailed _ _ \<Rightarrow> True
      | Received chunk \<Rightarrow>
          wr \<noteq> Written \<and> answer E (strip_cr (fst (getline (input_buf (client n) @ chunk)))) \<noteq> None)"

lemma node_b_round_ends:
  assumes "client_open (client n)"
  shows "fst (node_b_round E rd wr n) = (if round_fails E rd wr n then Some exit_failure else None)"
    and "client_open (client (snd (node_b_round E rd wr n))) \<longleftrightarrow> \<not> round_fails E rd wr n"
  using assms
  by (auto simp: round_fails_def node_b_round_def answer_def ReadLine_def WriteJson_def WriteLine_def IsConnected_def
      Close_client_def Let_def simp del: GetMessageType_iff split: prod.splits Result.splits read_result.splits
      write_result.splits if_splits)

lemma node_b_loop_ends:
  "client_open (client n) \<Longrightarrow>
   case fst (node_b_loop E rounds n) of
     None \<Rightarrow> client_open (client (snd (node_b_loop E rounds n)))
   | Some code \<Rightarrow> code = exit_failure \<and> \<not> client_open (client (snd (node_b_loop E rounds n))) \<and>
       (\<exists>pre rd wr post. rounds = pre @ (rd, wr) # post \<and> fst (node_b_loop E pre n) = None \<and>
          round_fails E rd wr (snd (node_b_loop E pre n)))"
proof (induction rounds arbitrary: n)
  case (Cons round rounds)
  obtain rd wr where round: "round = (rd, wr)" by fastforce
  note e = node_b_round_ends [OF Cons.prems, of E rd wr]
  show ?case
  proof (cases "round_fails E rd wr n")
    case True
    then have "node_b_loop E (round # rounds) n = (Some exit_failure, snd (node_b_round E rd wr n))"
      using e(1) by (cases "node_b_round E rd wr n") (simp add: round)
    moreover have "\<exists>pre rd' wr' post. round # rounds = pre @ (rd', wr') # post \<and> fst (node_b_loop E pre n) = None \<and>
        round_fails E rd' wr' (snd (node_b_loop E pre n))"
      by (rule exI [of _ "[]"]) (simp add: round True)
    ultimately show ?thesis using True e(2) by simp
  next
    case False
    then have r: "node_b_round E rd wr n = (None, snd (node_b_round E rd wr n))"
      using e(1) by (cases "node_b_round E rd wr n") simp
    then have step: "node_b_loop E ((rd, wr) # rs) n = node_b_loop E rs (snd (node_b_round E rd wr n))" for rs
      by (cases "node_b_round E rd wr n") simp
    have "client_open (client (snd (node_b_round E rd wr n)))" using False e(2) by simp
    from Cons.IH [OF this] show ?thesis
      by (auto simp: round step simp del: node_b_loop.simps(2) split: option.splits)
        (metis append_Cons step)
  qed
qed simp

subsection \<open>Properties of Node B\<close>

definition connected_client :: TcpClient where
  "connected_client = new_client\<lparr>client_open := True\<rparr>"

definition serving_node_b :: "'j env \<Rightarrow> NodeB" where
  "serving_node_b E =
     \<lparr>client = connected_client\<lparr>client_sent := client_frame (json_dump E (MakeHelloMessage E k_role_B))\<rparr>,
      error_message = [], received_packets_count = 0, send_modules_count = 0,
      console = [Started, ConnectedTo server_host server_port, HelloSent, Waiting]\<rparr>"

lemma node_b_main_connected: "node_b_main E None Connected Written rounds = node_b_loop E rounds (serving_node_b E)"
  by (simp add: node_b_main_def Connect_def new_node_b_def say_def WriteJson_def WriteLine_def IsConnected_def
      serving_node_b_def connected_client_def new_client_def Let_def)

lemma lines_of_run:
  assumes "client_open c" and "read_run chunks c" and "input_buf c = []"
  shows "fst (ReadLines (map Received chunks) c) = take (length chunks) (fst (drain (concat chunks)))"
proof -
  obtain ls c' where r: "ReadLines (map Received chunks) c = (ls, c')" by fastforce
  show ?thesis using ReadLines_drain [OF assms(1,2) r] assms(3) r by auto
qed

text \<open>
  C21. Node B sends its hello and then, for the lines it reads, in their order, one module
  per valid packet, with the packet's timestamp and norm, and nothing for any other line
  (broken JSON, another type, a missing field); it goes on reading. However the stream is
  cut into pieces, the lines are those of the stream.
\<close>

theorem node_b_answers:
  assumes "read_run chunks connected_client"
  shows "case node_b_main E None Connected Written (map (\<lambda>chunk. (Received chunk, Written)) chunks) of
     (code, n) \<Rightarrow>
       code = None \<and>
       client_sent (client n) = client_frame (json_dump E (MakeHelloMessage E k_role_B)) @
         concat (map (module_line E)
           (List.map_filter (answer E) (take (length chunks) (fst (drain (concat chunks))))))"
proof -
  have c: "client_open connected_client" "input_buf connected_client = []"
    by (simp_all add: connected_client_def new_client_def)
  have s: "client (serving_node_b E) =
      connected_client\<lparr>client_sent := client_frame (json_dump E (MakeHelloMessage E k_role_B))\<rparr>"
    by (simp add: serving_node_b_def)
  have "client_open (client (serving_node_b E))" by (simp add: s c)
  from node_b_loop_lines [OF this, of E chunks] show ?thesis
    using lines_of_run [OF c(1) assms c(2)] c(1)
      s by (simp add: node_b_main_connected split_beta ReadLines_sent)
qed

lemma answer_built:
  assumes "builder_laws E" "number_laws E" "text_laws E" and "sendable_packet p"
  shows "answer E (json_dump E (ToJson_packet E p)) =
     Some \<lparr>module_timestamp = accel_timestamp p, module_value = module_of p\<rparr>"
  using packet_codec.text_roundtrip [OF assms] packet_codec.line_shape(1) [OF assms(3,4)]
  by (auto simp: answer_def ParseJsonLine_def simp flip: GetMessageType_iff simp del: GetMessageType_iff)

theorem node_b_answers_witness:
  "client_sent (client (snd (node_b_main jenv None Connected Written
      [(Received (json_dump jenv (ToJson_packet jenv (sample_packet 7 5000)) @ [newline]), Written)]))) =
     client_frame (json_dump jenv (MakeHelloMessage jenv k_role_B)) @
     module_line jenv \<lparr>module_timestamp = 7, module_value = module_of (sample_packet 7 5000)\<rparr>"
proof -
  define l where "l = json_dump jenv (ToJson_packet jenv (sample_packet 7 5000))"
  have safe: "line_safe l" unfolding l_def
    by (rule line_safe_visible, rule packet_codec.line_shape(2) [OF jenv_text_laws sample_sendable(1)])
  have run: "read_run [l @ [newline]] connected_client"
    by (simp add: read_possible_def connected_client_def new_client_def split: prod.split)
  have "drain (l @ [newline]) = ([l], [])"
    using safe drain_line [of l "[]"] by (simp add: drain_none strip_cr_safe) (simp add: line_safe_def)
  moreover have "answer jenv l = Some \<lparr>module_timestamp = 7, module_value = module_of (sample_packet 7 5000)\<rparr>"
    unfolding l_def answer_built [OF jenv_builder_laws jenv_number_laws jenv_text_laws sample_sendable(1)]
    by (simp add: sample_packet_def)
  ultimately show ?thesis using node_b_answers [OF run, of jenv]
    unfolding l_def [symmetric] by (simp add: split_beta)
qed

text \<open>
  C40. Node B ends only by a failure: it never returns \<open>EXIT_SUCCESS\<close>. Once it has resolved,
  connected and said hello, it returns only in a round whose read failed, or whose line was a
  valid packet and the write of its module failed, all rounds before having gone on; the
  connection is then closed. Nothing a line contains ends it.
\<close>

theorem node_b_exit:
  assumes "fst (node_b_main E resolve_error connect hello rounds) = Some code"
  shows "code = exit_failure \<and> code \<noteq> exit_success \<and>
    (resolve_error = None \<and> connect = Connected \<and> hello = Written \<longrightarrow>
       \<not> client_open (client (snd (node_b_main E resolve_error connect hello rounds))) \<and>
       (\<exists>pre rd wr post. rounds = pre @ (rd, wr) # post \<and>
          fst (node_b_main E resolve_error connect hello pre) = None \<and>
          ((\<exists>error got. rd = ReadFailed error got) \<or>
           (\<exists>chunk error k. rd = Received chunk \<and> wr = WriteFailed error k \<and>
              answer E (strip_cr (fst (getline (input_buf (client
                (snd (node_b_main E resolve_error connect hello pre))) @ chunk)))) \<noteq> None))))"
proof (cases "resolve_error = None \<and> connect = Connected \<and> hello = Written")
  case True
  have "client_open (client (serving_node_b E))" by (simp add: serving_node_b_def connected_client_def)
  note l = node_b_loop_ends [OF this, of E rounds]
  from assms True have s: "fst (node_b_loop E rounds (serving_node_b E)) = Some code"
    by (simp add: node_b_main_connected)
  then obtain pre rd wr post where r: "rounds = pre @ (rd, wr) # post"
      "fst (node_b_loop E pre (serving_node_b E)) = None"
      "round_fails E rd wr (snd (node_b_loop E pre (serving_node_b E)))"
    using l by auto
  have c: "code = exit_failure" "\<not> client_open (client (snd (node_b_loop E rounds (serving_node_b E))))"
    using l s by simp_all
  have f: "(\<exists>error got. rd = ReadFailed error got) \<or>
      (\<exists>chunk error k. rd = Received chunk \<and> wr = WriteFailed error k \<and>
         answer E (strip_cr (fst (getline (input_buf (client (snd (node_b_loop E pre (serving_node_b E)))) @ chunk)))) \<noteq> None)"
    using r(3) by (cases rd; cases wr) (simp_all add: round_fails_def)
  show ?thesis using True c r(1,2) f by (simp add: node_b_main_connected exit_failure_def exit_success_def) blast
next
  case False
  then have "code = exit_failure"
    using assms
    by (auto simp: node_b_main_def Connect_def WriteJson_def WriteLine_def IsConnected_def Let_def
        split: option.splits connect_result.splits write_result.splits if_splits)
  then show ?thesis using False by (auto simp: exit_failure_def exit_success_def)
qed

theorem node_b_exit_witness:
  "\<not> client_open (client (snd (node_b_main jenv None Connected Written [(ReadFailed ''eof'' [], Written)])))"
proof -
  have "fst (node_b_main jenv None Connected Written [(ReadFailed ''eof'' [], Written)]) = Some exit_failure"
    by (simp add: node_b_main_connected node_b_round_def ReadLine_def IsConnected_def connected_client_def Let_def serving_node_b_def
        new_client_def)
  then show ?thesis using node_b_exit by blast
qed

end
