(* ===== verification/Emulator.thy ===== *)
theory Emulator
  imports ModuleNorm
begin

text \<open>
  \<open>src/node_a/accelerometer_emulator.cpp\<close>: the emulated accelerometer. The system clock's
  reading is an argument, in ticks of which \<open>ticks_per_ms\<close> make a millisecond; \<open>sin\<close> and
  \<open>cos\<close> are those of the environment \<open>E\<close>.
\<close>

subsection \<open>Model\<close>

record AccelerometerEmulator =
  sample_index :: u64

definition new_emulator :: AccelerometerEmulator where
  "new_emulator = \<lparr>sample_index = 0\<rparr>"

definition k_pi :: binary64 where "k_pi = literal64 3141592 1000000"
definition k_sample_rate_hz :: binary64 where "k_sample_rate_hz = literal64 50 1"
definition k_gravity :: binary64 where "k_gravity = literal64 98 10"

text \<open>\<open>duration_cast\<close> to milliseconds truncates toward zero.\<close>

definition CurrentTimestampMs :: "int \<Rightarrow> int \<Rightarrow> i64" where
  "CurrentTimestampMs ticks_per_ms now =
     word_of_int (if now < 0 then - (\<bar>now\<bar> div ticks_per_ms) else now div ticks_per_ms)"

definition phase :: "binary64 \<Rightarrow> binary64 \<Rightarrow> binary64" where
  "phase freq time_sec = fmul64 (fmul64 (fmul64 (literal64 2 1) k_pi) freq) time_sec"

definition NextPacket ::
  "'j env \<Rightarrow> int \<Rightarrow> int \<Rightarrow> AccelerometerEmulator \<Rightarrow> AccelPacket \<times> AccelerometerEmulator" where
  "NextPacket E ticks_per_ms now em =
     (let timestamp = CurrentTimestampMs ticks_per_ms now;
          time_sec = fdiv64 (double_of_u64 (sample_index em)) k_sample_rate_hz;
          packet = \<lparr>accel_timestamp = timestamp,
            accel_x = fmul64 (literal64 4 10) (std_sin E (phase (literal64 7 10) time_sec)),
            accel_y = fadd64 k_gravity (fmul64 (literal64 2 10) (std_sin E (phase (literal64 3 10) time_sec))),
            accel_z = fmul64 (literal64 1 10) (std_cos E (phase (literal64 5 10) time_sec))\<rparr>
      in (packet, em\<lparr>sample_index := sample_index em + 1\<rparr>))"

subsection \<open>The time of a sample is finite\<close>

lemma double_of_u64_shape:
  "\<exists>m e. double_of_u64 w = Finite False m e \<and> m < 2 ^ 53 \<and> e \<le> 12"
proof (cases "unat w = 0")
  case True
  then show ?thesis by (simp add: double_of_u64_def round64_def)
next
  case False
  have "unat w < 2 ^ 64" using unsigned_less [of w] by simp
  moreover have "2 ^ bitlen (unat w) \<le> 2 * unat w" using False by (intro bitlen_lower) simp
  ultimately have "(2::nat) ^ bitlen (unat w) < 2 ^ 65" by simp
  then have "bitlen (unat w) < 65" by (rule power_less_imp_less_exp [rotated]) simp
  then have t: "target_exponent (unat w) 0 \<le> 11" by (simp add: target_exponent_def)
  have q: "round_significand (unat w) 0 \<le> 2 ^ 53" using False by (intro round_significand_upper) simp
  show ?thesis using False t q
    by (auto simp: double_of_u64_def round64_def pack64_def)
qed

lemma tiny64_le_1: "tiny64 \<le> 1"
  unfolding tiny64_def using powi_2_mono [of "-1074" 0] by simp

lemma round_ratio_finite:
  assumes "real (a + 1) * 2 powi e < 2 powi k" and "k = 1023"
  shows "is_finite64 (round_ratio s a b e)"
    and "\<bar>real64 (round_ratio s a b e)\<bar> \<le> 2 * (real (a + 1) * 2 powi e) + 1"
proof -
  define j where "j = 60 + bitlen b"
  define N where "N = 2 * (a * 2 ^ j div b) + (if a * 2 ^ j mod b = 0 then 0 else 1)"
  have r: "round_ratio s a b e = round64 s N (e - int j - 1)"
    by (simp add: round_ratio_def j_def N_def Let_def)
  have "a * 2 ^ j div b \<le> a * 2 ^ j" by (rule div_le_dividend)
  moreover have "N \<le> 2 * (a * 2 ^ j div b) + 1" by (simp add: N_def)
  moreover have "(a + 1) * 2 ^ j = a * 2 ^ j + 2 ^ j" "1 \<le> (2::nat) ^ j" by simp_all
  ultimately have "N \<le> 2 * ((a + 1) * 2 ^ j)" by linarith
  then have "real N \<le> real (2 * ((a + 1) * 2 ^ j))" by (rule of_nat_mono)
  then have "real N * 2 powi (e - int j - 1) \<le> real (2 * ((a + 1) * 2 ^ j)) * 2 powi (e - int j - 1)"
    by (intro mult_right_mono) simp_all
  also have "\<dots> = real (a + 1) * (2 powi 1 * 2 powi int j * 2 powi (e - int j - 1))"
    by (simp add: algebra_simps)
  also have "2 powi 1 * 2 powi int j * 2 powi (e - int j - 1) = (2::real) powi e"
    by (simp only: powi_2_add [symmetric]) simp
  finally have le: "real N * 2 powi (e - int j - 1) \<le> real (a + 1) * 2 powi e" .
  then have lt: "real N * 2 powi (e - int j - 1) < 2 powi k" using assms(1) by linarith
  show "is_finite64 (round_ratio s a b e)" unfolding r by (rule round64_finite [OF lt assms(2)])
  have n: "0 \<le> real N * 2 powi (e - int j - 1)" by simp
  have "real N * 2 powi (e - int j - 1) * ulp64 \<le> real N * 2 powi (e - int j - 1) * 1"
    using ulp64_bounds n by (intro mult_left_mono) simp_all
  then have "rounding_bound (real N * 2 powi (e - int j - 1)) \<le> real N * 2 powi (e - int j - 1) + 1"
    using rounding_bound_le [OF n] tiny64_le_1 by linarith
  moreover have "\<bar>sgn64 s * (real N * 2 powi (e - int j - 1))\<bar> = real N * 2 powi (e - int j - 1)"
    by (simp add: abs_mult)
  ultimately show "\<bar>real64 (round_ratio s a b e)\<bar> \<le> 2 * (real (a + 1) * 2 powi e) + 1"
    using round64_error [OF lt assms(2), of s] le unfolding r by linarith
qed

lemma eval_constants:
  "k_sample_rate_hz = Finite False 7036874417766400 (-47)"
  "k_gravity = Finite False 5516909543528858 (-49)"
  "fmul64 (fmul64 (literal64 2 1) k_pi) (literal64 7 10) = Finite False 4951965396192546 (-50)"
  "fmul64 (fmul64 (literal64 2 1) k_pi) (literal64 3 10) = Finite False 8489083536330079 (-52)"
  "fmul64 (fmul64 (literal64 2 1) k_pi) (literal64 5 10) = Finite False 7074236280275066 (-51)"
  "literal64 4 10 = Finite False 7205759403792794 (-54)"
  "literal64 2 10 = Finite False 7205759403792794 (-55)"
  "literal64 1 10 = Finite False 7205759403792794 (-56)"
  by (simp_all add: eval64 k_sample_rate_hz_def k_gravity_def k_pi_def)


lemma time_sec_finite:
  "is_finite64 (fdiv64 (double_of_u64 w) k_sample_rate_hz)"
  "\<bar>real64 (fdiv64 (double_of_u64 w) k_sample_rate_hz)\<bar> \<le> 2 powi 120"
proof -
  obtain m e where d: "double_of_u64 w = Finite False m e" "m < 2 ^ 53" "e \<le> 12"
    using double_of_u64_shape by blast
  have f: "fdiv64 (double_of_u64 w) k_sample_rate_hz = round_ratio False m 7036874417766400 (e + 47)"
    by (simp add: d(1) eval_constants(1))
  define k where "k = (1023 :: int)"
  have "real (m + 1) \<le> real (2 ^ 53)" using d(2) by (intro of_nat_mono) simp
  then have "real (m + 1) * 2 powi (e + 47) \<le> 2 powi 53 * 2 powi 59"
    using d(3) by (intro mult_mono powi_2_mono) simp_all
  then have b: "real (m + 1) * 2 powi (e + 47) \<le> 2 powi 112" by (simp only: powi_2_add [symmetric]) simp
  also have "\<dots> < 2 powi k" by (simp only: powi_2_less_iff) (simp add: k_def)
  finally have lt: "real (m + 1) * 2 powi (e + 47) < 2 powi k" .
  show "is_finite64 (fdiv64 (double_of_u64 w) k_sample_rate_hz)"
    unfolding f by (rule round_ratio_finite(1) [OF lt k_def])
  have "\<bar>real64 (fdiv64 (double_of_u64 w) k_sample_rate_hz)\<bar> \<le> 2 * 2 powi 112 + 1"
    using round_ratio_finite(2) [OF lt k_def, of False 7036874417766400] b unfolding f by linarith
  then show "\<bar>real64 (fdiv64 (double_of_u64 w) k_sample_rate_hz)\<bar> \<le> 2 powi 120" by simp
qed

text \<open>A factor of moderate size times a finite number of moderate size.\<close>

lemma mult_moderate:
  assumes "is_finite64 x" "is_finite64 y" "\<bar>real64 x\<bar> \<le> 2 powi 10" "\<bar>real64 y\<bar> \<le> 2 powi 120"
  shows "is_finite64 (fmul64 x y)"
    and "\<bar>real64 (fmul64 x y) - real64 x * real64 y\<bar> \<le> \<bar>real64 x * real64 y\<bar> * ulp64 + tiny64"
proof -
  define k where "k = (1023 :: int)"
  have "\<bar>real64 x * real64 y\<bar> \<le> 2 powi 10 * 2 powi 120"
    unfolding abs_mult using assms(3,4) by (intro mult_mono) simp_all
  also have "\<dots> < 2 powi k" by (simp only: powi_2_add [symmetric] powi_2_less_iff) (simp add: k_def)
  finally have lt: "\<bar>real64 x * real64 y\<bar> < 2 powi k" .
  note e = fmul64_error [OF assms(1,2) lt k_def]
  show "is_finite64 (fmul64 x y)" by (rule e(1))
  show "\<bar>real64 (fmul64 x y) - real64 x * real64 y\<bar> \<le> \<bar>real64 x * real64 y\<bar> * ulp64 + tiny64"
    using e(2) rounding_bound_le [of "\<bar>real64 x * real64 y\<bar>"] by simp
qed

lemma phases_finite:
  "is_finite64 (phase (literal64 7 10) (fdiv64 (double_of_u64 w) k_sample_rate_hz))"
  "is_finite64 (phase (literal64 3 10) (fdiv64 (double_of_u64 w) k_sample_rate_hz))"
  "is_finite64 (phase (literal64 5 10) (fdiv64 (double_of_u64 w) k_sample_rate_hz))"
  unfolding phase_def eval_constants(3-5)
  by (rule mult_moderate(1) [OF _ time_sec_finite(1) _ time_sec_finite(2)]; simp add: sgn64_def)+

text \<open>The documented range of \<open>sin\<close> and \<open>cos\<close>.\<close>

definition trig_laws :: "'j env \<Rightarrow> bool" where
  "trig_laws E \<longleftrightarrow>
     (\<forall>v. is_finite64 v \<longrightarrow> is_finite64 (std_sin E v) \<and> valid64 (std_sin E v) \<and> \<bar>real64 (std_sin E v)\<bar> \<le> 1 \<and>
        is_finite64 (std_cos E v) \<and> valid64 (std_cos E v) \<and> \<bar>real64 (std_cos E v)\<bar> \<le> 1)"

lemma scaled_unit:
  assumes "is_finite64 s" and "\<bar>real64 s\<bar> \<le> 1" and "is_finite64 c" and "0 \<le> real64 c" and "real64 c \<le> 1"
  shows "is_finite64 (fmul64 c s)" and "\<bar>real64 (fmul64 c s)\<bar> \<le> real64 c + 1 / 1000000"
proof -
  have p: "(1::real) \<le> 2 powi 10" "(1::real) \<le> 2 powi 120" by simp_all
  have c: "\<bar>real64 c\<bar> \<le> 2 powi 10" "\<bar>real64 s\<bar> \<le> 2 powi 120" using assms p by linarith+
  note e = mult_moderate [OF assms(3,1) c]
  show "is_finite64 (fmul64 c s)" by (rule e(1))
  have le: "\<bar>real64 c * real64 s\<bar> \<le> real64 c"
    unfolding abs_mult using assms mult_left_le [of "\<bar>real64 s\<bar>" "real64 c"] by simp
  have "\<bar>real64 c * real64 s\<bar> * ulp64 \<le> 1 * (1 / 10000000)"
    using le assms(5) by (intro mult_mono) (simp_all add: ulp64_def)
  moreover have "tiny64 \<le> 1 / 10000000"
    unfolding tiny64_def using powi_2_mono [of "-1074" "-40"] by simp
  ultimately show "\<bar>real64 (fmul64 c s)\<bar> \<le> real64 c + 1 / 1000000"
    using e(2) le by linarith
qed


lemma small_constants:
  "is_finite64 (literal64 4 10)" "is_finite64 (literal64 2 10)" "is_finite64 (literal64 1 10)" "is_finite64 k_gravity"
  "0 \<le> real64 (literal64 4 10)" "0 \<le> real64 (literal64 2 10)" "0 \<le> real64 (literal64 1 10)"
  "real64 (literal64 4 10) \<le> 4 / 10 + 1 / 1000000" "real64 (literal64 2 10) \<le> 2 / 10 + 1 / 1000000"
  "real64 (literal64 1 10) \<le> 1 / 10 + 1 / 1000000" "\<bar>real64 k_gravity - 98 / 10\<bar> \<le> 1 / 1000000"
  "valid64 (literal64 4 10)" "valid64 (literal64 2 10)" "valid64 (literal64 1 10)" "valid64 k_gravity"
  unfolding eval_constants by (simp_all add: sgn64_def)

lemma NextPacket_bounds:
  assumes "trig_laws E" and "NextPacket E ticks_per_ms now em = (p, em')"
  shows "sendable_packet p" and "\<bar>real64 (accel_x p)\<bar> \<le> 4 / 10 + 1 / 100000"
    and "\<bar>real64 (accel_y p) - 98 / 10\<bar> \<le> 2 / 10 + 1 / 100000" and "\<bar>real64 (accel_z p)\<bar> \<le> 1 / 10 + 1 / 100000"
proof -
  define tm where "tm = fdiv64 (double_of_u64 (sample_index em)) k_sample_rate_hz"
  define a b c where "a = std_sin E (phase (literal64 7 10) tm)" and "b = std_sin E (phase (literal64 3 10) tm)"
    and "c = std_cos E (phase (literal64 5 10) tm)"
  have fin: "is_finite64 a" "is_finite64 b" "is_finite64 c" "valid64 a" "valid64 b" "valid64 c"
    "\<bar>real64 a\<bar> \<le> 1" "\<bar>real64 b\<bar> \<le> 1" "\<bar>real64 c\<bar> \<le> 1"
    using assms(1) phases_finite unfolding trig_laws_def a_def b_def c_def tm_def by blast+
  have p: "p = \<lparr>accel_timestamp = CurrentTimestampMs ticks_per_ms now, accel_x = fmul64 (literal64 4 10) a,
      accel_y = fadd64 k_gravity (fmul64 (literal64 2 10) b), accel_z = fmul64 (literal64 1 10) c\<rparr>"
    using assms(2) by (simp add: NextPacket_def Let_def a_def b_def c_def tm_def)
  note k = small_constants
  note x = scaled_unit [OF fin(1,7) k(1,5)] and y = scaled_unit [OF fin(2,8) k(2,6)] and z = scaled_unit [OF fin(3,9) k(3,7)]
  have lx: "real64 (literal64 4 10) \<le> 1" "real64 (literal64 2 10) \<le> 1" "real64 (literal64 1 10) \<le> 1"
    using k(8-10) by simp_all
  note x = x [OF lx(1)] and y = y [OF lx(2)] and z = z [OF lx(3)]
  have sum: "0 \<le> real64 k_gravity + real64 (fmul64 (literal64 2 10) b)"
    "real64 k_gravity + real64 (fmul64 (literal64 2 10) b) \<le> 100"
    using y(2) k(9,11) by linarith+
  note s = add_rounded [OF k(4) y(1) sum(1)]
  have "(real64 k_gravity + real64 (fmul64 (literal64 2 10) b)) * ulp64 \<le> 100 * (1 / 1000000000)"
    using sum by (intro mult_mono) (simp_all add: ulp64_def)
  moreover have "tiny64 \<le> 1 / 10000000"
    unfolding tiny64_def using powi_2_mono [of "-1074" "-40"] by simp
  ultimately have "\<bar>real64 (fadd64 k_gravity (fmul64 (literal64 2 10) b)) - 98 / 10\<bar> \<le> 2 / 10 + 1 / 100000"
    using s(2) sum(2) y(2) k(9,11) by linarith
  then show "\<bar>real64 (accel_y p) - 98 / 10\<bar> \<le> 2 / 10 + 1 / 100000" unfolding p by simp
  show "\<bar>real64 (accel_x p)\<bar> \<le> 4 / 10 + 1 / 100000" using x(2) k(8) by (simp add: p)
  show "\<bar>real64 (accel_z p)\<bar> \<le> 1 / 10 + 1 / 100000" using z(2) k(10) by (simp add: p)
  show "sendable_packet p"
    using s(1) sum(2) x(1) z(1) fin k(12-15) by (simp add: sendable_packet_def p fmul64_valid fadd64_valid)
qed

lemma NextPacket_sane:
  assumes "trig_laws E" and "NextPacket E ticks_per_ms now em = (p, em')"
  shows "sane_packet p"
proof -
  note b = NextPacket_bounds [OF assms]
  have "\<bar>real64 (accel_x p)\<bar> \<le> 1000000" "\<bar>real64 (accel_y p)\<bar> \<le> 1000000" "\<bar>real64 (accel_z p)\<bar> \<le> 1000000"
    using b(2-4) by linarith+
  then show ?thesis using b(1) by (simp add: sane_packet_def sane_axis_def sendable_packet_def)
qed


subsection \<open>Property of the emulator\<close>

text \<open>
  C25. Given the documented range of \<open>sin\<close> and \<open>cos\<close>, every packet the emulator makes,
  for any sample index and clock, can be sent as JSON (its axes are finite), and its axes
  stay near the amplitudes of the source: at most 0.4 and 0.1 for x and z, 9.8 plus or
  minus 0.2 for y, up to rounding. The sample index is advanced by one.
\<close>

theorem emulator_in_range:
  assumes "trig_laws E"
  shows "case NextPacket E ticks_per_ms now em of
     (p, em') \<Rightarrow>
       sendable_packet p \<and> \<bar>real64 (accel_x p)\<bar> \<le> 4 / 10 + 1 / 100000 \<and>
       \<bar>real64 (accel_y p) - 98 / 10\<bar> \<le> 2 / 10 + 1 / 100000 \<and>
       \<bar>real64 (accel_z p)\<bar> \<le> 1 / 10 + 1 / 100000 \<and>
       accel_timestamp p = CurrentTimestampMs ticks_per_ms now \<and> sample_index em' = sample_index em + 1"
proof -
  obtain p em' where n: "NextPacket E ticks_per_ms now em = (p, em')" by fastforce
  have "accel_timestamp p = CurrentTimestampMs ticks_per_ms now" "sample_index em' = sample_index em + 1"
    using n by (auto simp: NextPacket_def Let_def)
  then show ?thesis using NextPacket_bounds [OF assms n] by (simp add: n)
qed

lemma jenv_trig_laws: "trig_laws jenv"
  by (simp add: trig_laws_def jenv_def sgn64_def)

theorem emulator_in_range_witness:
  "accel_timestamp (fst (NextPacket jenv 1000000 1700000000123456789 new_emulator)) = 1700000000123 \<and>
   sendable_packet (fst (NextPacket jenv 1000000 1700000000123456789 new_emulator))"
  using emulator_in_range [OF jenv_trig_laws, of 1000000 1700000000123456789 new_emulator]
  by (simp add: split_beta CurrentTimestampMs_def)

end
