(* ===== verification/NodeA.thy ===== *)
theory NodeA
  imports NodeB Emulator "HOL-Library.Sublist"
begin

text \<open>
  \<open>src/node_a/main.cpp\<close>: Node A's two threads. \<open>main\<close> sends packets until a write fails;
  \<open>ReceiveModules\<close> appends the modules it reads to a log. They share the client and the flag
  \<open>is_runnig\<close>. A step is one blocking call of one thread with the code up to the next one;
  the program counters \<open>receiver_at\<close> and \<open>main_at\<close> say where each thread is. The threads'
  steps interleave in any order, and the results of the calls are chosen by the network.
  Writes of \<open>main\<close> and reads of the receiver touch different parts of the client.
\<close>

subsection \<open>State\<close>

datatype receiver_at = ReceiverStart | LoopTop | CallsRead | Reading bool | ReceiverDone
datatype main_at = Sending | Closing | Joining | Exited int

datatype node_a_output =
    LogOpenFailed | LogOpened | ReadModuleError string | InvalidJsonA string | ProtocolErrorA string
  | UnsupportedTypeA string | InvalidModuleA string | ProgressA u64 AccelModule
  | StartedA | ConnectionErrorA string | ConnectedToA string nat | SendErrorA string | HelloSentA
  | EmulatorStarted | SendPacketError string | SentPacket string

record NodeA =
  client_a :: TcpClient
  is_runnig :: bool
  receiver_pc :: receiver_at
  receiver_error :: string
  received_count :: u64
  module_log :: "AccelModule list"
  main_pc :: main_at
  main_error :: string
  emulator :: AccelerometerEmulator
  generated_packets_count :: u64
  console_a :: "node_a_output list"

definition say_a :: "node_a_output \<Rightarrow> NodeA \<Rightarrow> NodeA" where
  "say_a out n = n\<lparr>console_a := console_a n @ [out]\<rparr>"

subsection \<open>The receiver thread, \<open>ReceiveModules\<close>\<close>

text \<open>Up to the loop: the log is opened for appending, or the thread gives up.\<close>

definition receiver_start :: "bool \<Rightarrow> NodeA \<Rightarrow> NodeA" where
  "receiver_start log_open n =
     (if \<not> log_open then (say_a LogOpenFailed n)\<lparr>is_runnig := False, receiver_pc := ReceiverDone\<rparr>
      else (say_a LogOpened n)\<lparr>receiver_pc := LoopTop\<rparr>)"

definition receiver_check :: "NodeA \<Rightarrow> NodeA" where
  "receiver_check n = (if is_runnig n then n\<lparr>receiver_pc := CallsRead\<rparr> else n\<lparr>receiver_pc := ReceiverDone\<rparr>)"

text \<open>
  The call of \<open>ReadLine\<close>, up to the blocking read: it tests the connection (\<open>Reading was_open\<close>).
  \<open>main\<close> may close it between the loop condition and this test, or afterwards, while the read
  is blocked, which the read itself does not undo.
\<close>

definition receiver_call :: "NodeA \<Rightarrow> NodeA" where
  "receiver_call n = n\<lparr>receiver_pc := Reading (IsConnected (client_a n))\<rparr>"

text \<open>The rest of the call, and what the loop does with its result.\<close>

definition receiver_read :: "'j env \<Rightarrow> bool \<Rightarrow> read_result \<Rightarrow> NodeA \<Rightarrow> NodeA" where
  "receiver_read E was_open rd n =
     (case ReadLine rd (receiver_error n) ((client_a n)\<lparr>client_open := was_open\<rparr>) of
        (read_ok, line, err, c) \<Rightarrow>
          let n1 = n\<lparr>client_a := c\<lparr>client_open := client_open (client_a n)\<rparr>, receiver_error := err\<rparr> in
          if \<not> read_ok then
            (if is_runnig n1 then say_a (ReadModuleError err) n1 else n1)\<lparr>is_runnig := False, receiver_pc := ReceiverDone\<rparr>
          else
            let n2 = n1\<lparr>receiver_pc := LoopTop\<rparr> in
            case ParseJsonLine E line of
              failure error \<Rightarrow> say_a (InvalidJsonA error) n2
            | success json \<Rightarrow>
                (case GetMessageType E json of
                   failure error \<Rightarrow> say_a (ProtocolErrorA error) n2
                 | success ty \<Rightarrow>
                     if ty \<noteq> k_type_module then say_a (UnsupportedTypeA ty) n2
                     else
                       case ParseAccelModule E json of
                         failure error \<Rightarrow> say_a (InvalidModuleA error) n2
                       | success m \<Rightarrow>
                           let n3 = n2\<lparr>module_log := module_log n2 @ [m], received_count := received_count n2 + 1\<rparr>
                           in if received_count n3 mod 50 = 0 then say_a (ProgressA (received_count n3) m) n3 else n3))"

subsection \<open>The main thread\<close>

text \<open>One round of the sending loop: \<open>while (true)\<close>, left only when a write fails.\<close>

definition send_round :: "'j env \<Rightarrow> int \<Rightarrow> int \<Rightarrow> write_result \<Rightarrow> NodeA \<Rightarrow> NodeA" where
  "send_round E ticks_per_ms now wr n =
     (case NextPacket E ticks_per_ms now (emulator n) of
        (packet, em) \<Rightarrow>
          let packet_json = ToJson_packet E packet in
          case WriteJson E wr packet_json (main_error n) (client_a n) of
            (write_ok, err, c) \<Rightarrow>
              let n1 = n\<lparr>emulator := em, client_a := c, main_error := err\<rparr> in
              if \<not> write_ok then (say_a (SendPacketError err) n1)\<lparr>is_runnig := False, main_pc := Closing\<rparr>
              else
                let n2 = n1\<lparr>generated_packets_count := generated_packets_count n1 + 1\<rparr>
                in if generated_packets_count n2 mod 50 = 0
                   then say_a (SentPacket (json_dump E packet_json)) n2 else n2)"

definition main_close :: "NodeA \<Rightarrow> NodeA" where
  "main_close n = n\<lparr>client_a := Close_client (client_a n), main_pc := Joining\<rparr>"

definition main_join :: "NodeA \<Rightarrow> NodeA" where
  "main_join n = n\<lparr>main_pc := Exited exit_success\<rparr>"

subsection \<open>Interleaving\<close>

datatype node_a_event =
    ReceiverOpens bool | ReceiverChecks | ReceiverCalls | ReceiverReads read_result
  | MainSends int write_result  \<comment> \<open>the clock reading and the result of the write\<close>
  | MainCloses | MainJoins

inductive node_a_step :: "'j env \<Rightarrow> int \<Rightarrow> NodeA \<Rightarrow> node_a_event \<Rightarrow> NodeA \<Rightarrow> bool" for E ticks_per_ms where
  opens: "receiver_pc n = ReceiverStart \<Longrightarrow> node_a_step E ticks_per_ms n (ReceiverOpens log_open) (receiver_start log_open n)"
| checks: "receiver_pc n = LoopTop \<Longrightarrow> node_a_step E ticks_per_ms n ReceiverChecks (receiver_check n)"
| calls: "receiver_pc n = CallsRead \<Longrightarrow> node_a_step E ticks_per_ms n ReceiverCalls (receiver_call n)"
| reads: "receiver_pc n = Reading was_open \<Longrightarrow> was_open \<or> (\<exists>m c. rd = ReadFailed m c) \<Longrightarrow>
    node_a_step E ticks_per_ms n (ReceiverReads rd) (receiver_read E was_open rd n)"
| sends: "main_pc n = Sending \<Longrightarrow> node_a_step E ticks_per_ms n (MainSends now wr) (send_round E ticks_per_ms now wr n)"
| closes: "main_pc n = Closing \<Longrightarrow> node_a_step E ticks_per_ms n MainCloses (main_close n)"
| joins: "main_pc n = Joining \<Longrightarrow> receiver_pc n = ReceiverDone \<Longrightarrow> node_a_step E ticks_per_ms n MainJoins (main_join n)"

inductive_cases MainSendsE: "node_a_step E ticks_per_ms n (MainSends now wr) n'"
inductive_simps main_joins_iff: "node_a_step E ticks_per_ms n MainJoins n'"

inductive node_a_run :: "'j env \<Rightarrow> int \<Rightarrow> NodeA \<Rightarrow> node_a_event list \<Rightarrow> NodeA \<Rightarrow> bool" for E ticks_per_ms where
  run_a_nil: "node_a_run E ticks_per_ms n [] n"
| run_a_cons: "node_a_step E ticks_per_ms n ev n' \<Longrightarrow> node_a_run E ticks_per_ms n' evs n'' \<Longrightarrow>
     node_a_run E ticks_per_ms n (ev # evs) n''"

inductive_simps node_a_run_Nil [simp]: "node_a_run E ticks_per_ms n [] n'"
inductive_simps node_a_run_Cons: "node_a_run E ticks_per_ms n (ev # evs) n'"

definition new_node_a :: NodeA where
  "new_node_a = \<lparr>client_a = new_client, is_runnig = True, receiver_pc = ReceiverStart, receiver_error = [],
     received_count = 0, module_log = [], main_pc = Sending, main_error = [], emulator = new_emulator,
     generated_packets_count = 0, console_a = []\<rparr>"

text \<open>\<open>main\<close> up to the start of the threads: an exit code, or the state both threads start in.\<close>

definition node_a_main :: "'j env \<Rightarrow> string option \<Rightarrow> connect_result \<Rightarrow> write_result \<Rightarrow> int option \<times> NodeA" where
  "node_a_main E resolve_error connect hello =
     (case Connect resolve_error connect [] (client_a new_node_a) of
        (conn_ok, err, c) \<Rightarrow>
          let n = (say_a StartedA new_node_a)\<lparr>client_a := c, main_error := err\<rparr> in
          if \<not> conn_ok then (Some exit_failure, say_a (ConnectionErrorA err) n)
          else
            case WriteJson E hello (MakeHelloMessage E k_role_A) err c of
              (sent_ok, err', c') \<Rightarrow>
                let n1 = (say_a (ConnectedToA server_host server_port) n)\<lparr>client_a := c', main_error := err'\<rparr> in
                if \<not> sent_ok then (Some exit_failure, say_a (SendErrorA err') n1)
                else (None, say_a EmulatorStarted (say_a HelloSentA n1)))"


subsection \<open>What a line adds to the log\<close>

definition logged :: "'j env \<Rightarrow> string \<Rightarrow> AccelModule option" where
  "logged E line =
     (case ParseJsonLine E line of
        failure _ \<Rightarrow> None
      | success json \<Rightarrow>
          if GetMessageType E json \<noteq> success k_type_module then None
          else case ParseAccelModule E json of failure _ \<Rightarrow> None | success m \<Rightarrow> Some m)"

fun chunks_read :: "node_a_event list \<Rightarrow> string list" where
  "chunks_read [] = []"
| "chunks_read (ReceiverReads (Received chunk) # evs) = chunk # chunks_read evs"
| "chunks_read (_ # evs) = chunks_read evs"

fun clocks_read :: "node_a_event list \<Rightarrow> int list" where
  "clocks_read [] = []"
| "clocks_read (MainSends now _ # evs) = now # clocks_read evs"
| "clocks_read (_ # evs) = clocks_read evs"

lemma say_a_simps [simp]:
  "client_a (say_a d n) = client_a n" "is_runnig (say_a d n) = is_runnig n" "receiver_pc (say_a d n) = receiver_pc n"
  "receiver_error (say_a d n) = receiver_error n" "received_count (say_a d n) = received_count n"
  "module_log (say_a d n) = module_log n" "main_pc (say_a d n) = main_pc n" "main_error (say_a d n) = main_error n"
  "emulator (say_a d n) = emulator n" "generated_packets_count (say_a d n) = generated_packets_count n"
  by (simp_all add: say_a_def)

lemma receiver_read_line:
  fixes E :: "'j env" and n :: NodeA
  assumes "getline (input_buf (client_a n) @ chunk) = (l, rest)"
  defines "n' \<equiv> receiver_read E True (Received chunk) n"
  shows "input_buf (client_a n') = rest"
    and "module_log n' = module_log n @ (case logged E (strip_cr l) of None \<Rightarrow> [] | Some m \<Rightarrow> [m])"
    and "client_sent (client_a n') = client_sent (client_a n)" and "client_open (client_a n') = client_open (client_a n)"
    and "main_pc n' = main_pc n" and "emulator n' = emulator n" and "is_runnig n' = is_runnig n"
    and "generated_packets_count n' = generated_packets_count n" and "receiver_pc n' = LoopTop"
  unfolding n'_def
  by (auto simp: receiver_read_def ReadLine_def IsConnected_def assms(1) Let_def logged_def
      simp del: GetMessageType_iff split: Result.splits)

lemma receiver_read_failed:
  fixes E :: "'j env" and n :: NodeA and was_open :: bool
  assumes "\<not> was_open \<or> (\<exists>m c. rd = ReadFailed m c)"
  defines "n' \<equiv> receiver_read E was_open rd n"
  shows "module_log n' = module_log n" and "client_sent (client_a n') = client_sent (client_a n)"
    and "client_open (client_a n') = client_open (client_a n)" and "main_pc n' = main_pc n"
    and "emulator n' = emulator n" and "generated_packets_count n' = generated_packets_count n"
    and "receiver_pc n' = ReceiverDone" and "\<not> is_runnig n'"
  using assms(1) unfolding n'_def
  by (auto simp: receiver_read_def ReadLine_def IsConnected_def Let_def split: read_result.splits)


subsection \<open>Runs of both threads\<close>

fun packets :: "'j env \<Rightarrow> int \<Rightarrow> int list \<Rightarrow> AccelerometerEmulator \<Rightarrow> AccelPacket list" where
  "packets E ticks_per_ms [] em = []"
| "packets E ticks_per_ms (now # nows) em =
     (case NextPacket E ticks_per_ms now em of (p, em') \<Rightarrow> p # packets E ticks_per_ms nows em')"

definition packet_line :: "'j env \<Rightarrow> AccelPacket \<Rightarrow> string" where
  "packet_line E p = client_frame (json_dump E (ToJson_packet E p))"

lemma send_round_written:
  fixes E :: "'j env" and n :: NodeA and ticks_per_ms now :: int
  assumes "client_open (client_a n)" and "NextPacket E ticks_per_ms now (emulator n) = (p, em)"
  defines "n' \<equiv> send_round E ticks_per_ms now Written n"
  shows "client_a n' = (client_a n)\<lparr>client_sent := client_sent (client_a n) @ packet_line E p\<rparr>"
    and "emulator n' = em" and "generated_packets_count n' = generated_packets_count n + 1"
    and "module_log n' = module_log n" and "main_pc n' = main_pc n" and "is_runnig n' = is_runnig n"
    and "receiver_pc n' = receiver_pc n"
  using assms(1) unfolding n'_def
  by (simp_all add: send_round_def assms(2) WriteJson_def WriteLine_def IsConnected_def packet_line_def Let_def)

lemma send_round_failed:
  fixes E :: "'j env" and n :: NodeA and ticks_per_ms now :: int and m :: string and k :: nat
  assumes "client_open (client_a n)" and "NextPacket E ticks_per_ms now (emulator n) = (p, em)"
  defines "n' \<equiv> send_round E ticks_per_ms now (WriteFailed m k) n"
  shows "client_sent (client_a n') = client_sent (client_a n) @ take k (packet_line E p)"
    and "client_open (client_a n')" and "input_buf (client_a n') = input_buf (client_a n)"
    and "module_log n' = module_log n" and "main_pc n' = Closing" and "\<not> is_runnig n'"
    and "receiver_pc n' = receiver_pc n" and "generated_packets_count n' = generated_packets_count n"
  using assms(1) unfolding n'_def
  by (simp_all add: send_round_def assms(2) WriteJson_def WriteLine_def IsConnected_def packet_line_def Let_def)

lemma send_round_receiver:
  "module_log (send_round E t now wr n) = module_log n" "receiver_pc (send_round E t now wr n) = receiver_pc n"
  "input_buf (client_a (send_round E t now wr n)) = input_buf (client_a n)"
  "client_open (client_a (send_round E t now wr n)) = client_open (client_a n)"
  by (auto simp: send_round_def WriteJson_def WriteLine_def Let_def split: prod.splits write_result.splits)

lemma done_stays: "node_a_step E t n ev n' \<Longrightarrow> receiver_pc n = ReceiverDone \<Longrightarrow> receiver_pc n' = ReceiverDone"
  by (induction rule: node_a_step.induct) (simp_all add: send_round_receiver main_close_def main_join_def)

lemma done_no_reads: "node_a_run E t n evs n' \<Longrightarrow> receiver_pc n = ReceiverDone \<Longrightarrow> chunks_read evs = []"
proof (induction rule: node_a_run.induct)
  case (run_a_cons n ev n' evs n'')
  have "chunks_read (ev # evs) = chunks_read evs"
    using run_a_cons.hyps(1) run_a_cons.prems by (cases rule: node_a_step.cases) auto
  then show ?case using run_a_cons.IH done_stays [OF run_a_cons.hyps(1) run_a_cons.prems] by simp
qed simp

lemma log_of_run:
  "node_a_run E t n evs n' \<Longrightarrow>
   module_log n' = module_log n @ List.map_filter (logged E) (lines_of (input_buf (client_a n)) (chunks_read evs))"
proof (induction rule: node_a_run.induct)
  case (run_a_cons n ev n' evs n'')
  from run_a_cons.hyps(1) show ?case
  proof cases
    case (reads was_open rd)
    show ?thesis
    proof (cases "\<exists>chunk. rd = Received chunk")
      case True
      then obtain chunk where rd: "rd = Received chunk" and o: "was_open" using reads(4) by auto
      obtain l rest where g: "getline (input_buf (client_a n) @ chunk) = (l, rest)" by fastforce
      show ?thesis using receiver_read_line(1,2) [OF g, of E] o run_a_cons.IH
        by (simp add: reads rd g split: option.splits)
    next
      case False
      then obtain m c where rd: "rd = ReadFailed m c" by (cases rd) auto
      have "receiver_pc n' = ReceiverDone" "module_log n' = module_log n"
        using receiver_read_failed [of was_open rd E n] rd reads(2) by simp_all
      then show ?thesis using run_a_cons.IH done_no_reads [OF run_a_cons.hyps(2)] by (simp add: reads(1) rd)
    qed
  next
    case (sends now wr)
    then show ?thesis using run_a_cons.IH by (simp add: send_round_receiver)
  qed (use run_a_cons.IH in \<open>simp_all add: receiver_start_def receiver_check_def receiver_call_def main_close_def main_join_def
      Close_client_def split: if_splits\<close>)
qed simp


text \<open>The events after which the receiver ends: opening the log, a read or a write fails.\<close>

fun stops_receiver :: "node_a_event \<Rightarrow> bool" where
  "stops_receiver (ReceiverOpens log_open) = (\<not> log_open)"
| "stops_receiver (ReceiverReads (ReadFailed error got)) = True"
| "stops_receiver (MainSends now (WriteFailed error k)) = True"
| "stops_receiver _ = False"

definition receiving :: "NodeA \<Rightarrow> bool" where
  "receiving n \<longleftrightarrow> is_runnig n \<and> receiver_pc n \<noteq> ReceiverDone \<and> receiver_pc n \<noteq> Reading False \<and>
     main_pc n = Sending \<and> client_open (client_a n)"

lemma receiving_step: "node_a_step E t n ev n' \<Longrightarrow> receiving n \<Longrightarrow> \<not> stops_receiver ev \<Longrightarrow> receiving n'"
proof (induction rule: node_a_step.induct)
  case (reads n was_open rd)
  then obtain chunk where rd: "rd = Received chunk" "was_open" by (cases rd) auto
  obtain l rest where g: "getline (input_buf (client_a n) @ chunk) = (l, rest)" by fastforce
  show ?case using receiver_read_line(4,5,7,9) [OF g, of E] reads.prems(1) by (simp add: rd receiving_def)
next
  case (sends n now wr)
  obtain p em where np: "NextPacket E t now (emulator n) = (p, em)" by fastforce
  show ?case using sends.prems send_round_written [OF _ np] by (cases wr) (auto simp: receiving_def)
qed (auto simp: receiving_def receiver_start_def receiver_check_def receiver_call_def IsConnected_def)

lemma receiving_run:
  "node_a_run E t n evs n' \<Longrightarrow> receiving n \<Longrightarrow> list_all (\<lambda>ev. \<not> stops_receiver ev) evs \<Longrightarrow> receiving n'"
  by (induction rule: node_a_run.induct) (auto intro: receiving_step)

lemma receiving_goes_on:
  assumes "receiving n" and "receiver_pc n = LoopTop"
  shows "node_a_run E t n [ReceiverChecks, ReceiverCalls] (receiver_call (receiver_check n)) \<and>
    receiver_pc (receiver_call (receiver_check n)) = Reading True"
  using assms node_a_step.checks [OF assms(2), of E t] node_a_step.calls [of "receiver_check n" E t]
  by (auto simp: node_a_run_Cons receiving_def receiver_check_def receiver_call_def IsConnected_def)

lemma main_step_frame:
  assumes "node_a_step E t n ev n'"
  shows "(\<exists>now wr. ev = MainSends now wr \<and> main_pc n = Sending \<and> n' = send_round E t now wr n) \<or>
     (client_sent (client_a n') = client_sent (client_a n) \<and> clocks_read [ev] = [] \<and> emulator n' = emulator n \<and>
      generated_packets_count n' = generated_packets_count n \<and> (main_pc n' = Sending \<longleftrightarrow> main_pc n = Sending) \<and>
      (main_pc n = Sending \<longrightarrow> client_open (client_a n') = client_open (client_a n)))"
  using assms
proof cases
  case (reads was_open rd)
  show ?thesis
  proof (cases "\<exists>chunk. rd = Received chunk")
    case True
    then obtain chunk where rd: "rd = Received chunk" and o: "was_open" using reads(4) by auto
    obtain l rest where g: "getline (input_buf (client_a n) @ chunk) = (l, rest)" by fastforce
    show ?thesis using receiver_read_line(3-8) [OF g, of E] o by (simp add: reads rd)
  next
    case False
    then have "\<not> was_open \<or> (\<exists>m c. rd = ReadFailed m c)" by (cases rd) auto
    from receiver_read_failed(2-6) [OF this, of E n] show ?thesis by (simp add: reads)
  qed
qed (auto simp: receiver_start_def receiver_check_def receiver_call_def main_close_def main_join_def Close_client_def)

lemma clocks_Cons: "clocks_read (ev # evs) = clocks_read [ev] @ clocks_read evs"
  by (cases ev) simp_all

lemma not_sending_run:
  "node_a_run E t n evs n' \<Longrightarrow> main_pc n \<noteq> Sending \<Longrightarrow>
   client_sent (client_a n') = client_sent (client_a n) \<and> clocks_read evs = [] \<and> main_pc n' \<noteq> Sending \<and>
   generated_packets_count n' = generated_packets_count n"
proof (induction rule: node_a_run.induct)
  case (run_a_cons n ev n' evs n'')
  then show ?case using main_step_frame [OF run_a_cons.hyps(1)] clocks_Cons [of ev evs] by auto
qed simp

lemma sent_of_run:
  "node_a_run E t n evs n' \<Longrightarrow> main_pc n = Sending \<Longrightarrow> client_open (client_a n) \<Longrightarrow>
   prefix (client_sent (client_a n'))
     (client_sent (client_a n) @ concat (map (packet_line E) (packets E t (clocks_read evs) (emulator n)))) \<and>
   (main_pc n' = Sending \<longrightarrow>
      client_open (client_a n') \<and>
      client_sent (client_a n') =
        client_sent (client_a n) @ concat (map (packet_line E) (packets E t (clocks_read evs) (emulator n))) \<and>
      generated_packets_count n' = generated_packets_count n + of_nat (length (clocks_read evs)))"
proof (induction rule: node_a_run.induct)
  case (run_a_cons n ev n' evs n'')
  show ?case
  proof (cases "\<exists>now wr. ev = MainSends now wr")
    case True
    then obtain now wr where ev: "ev = MainSends now wr" by blast
    then have n': "n' = send_round E t now wr n" using run_a_cons.hyps(1) by (auto elim: MainSendsE)
    obtain p em where np: "NextPacket E t now (emulator n) = (p, em)" by fastforce
    show ?thesis
    proof (cases wr)
      case Written
      note s = send_round_written [OF run_a_cons.prems(2) np]
      show ?thesis using run_a_cons.IH run_a_cons.prems s unfolding n' Written ev
        by (simp add: np add.assoc)
    next
      case (WriteFailed m k)
      note s = send_round_failed [OF run_a_cons.prems(2) np, of m k]
      have "main_pc n' \<noteq> Sending" using s(5) by (simp add: n' WriteFailed)
      note rest = not_sending_run [OF run_a_cons.hyps(2) this]
      have "packet_line E p = take k (packet_line E p) @ drop k (packet_line E p)" by simp
      then show ?thesis using rest s(1) unfolding n' WriteFailed ev
        by (simp add: np prefix_def) (metis append_take_drop_id)
    qed
  next
    case False
    then show ?thesis using run_a_cons.IH run_a_cons.prems main_step_frame [OF run_a_cons.hyps(1)] clocks_Cons [of ev evs]
      by auto
  qed
qed simp


subsection \<open>Shutting down\<close>

definition node_a_inv :: "NodeA \<Rightarrow> bool" where
  "node_a_inv n \<longleftrightarrow>
     (main_pc n \<noteq> Sending \<longrightarrow> \<not> is_runnig n) \<and>
     (main_pc n = Joining \<longrightarrow> \<not> client_open (client_a n)) \<and>
     (\<forall>c. main_pc n = Exited c \<longrightarrow> c = exit_success \<and> receiver_pc n = ReceiverDone \<and> \<not> client_open (client_a n))"

lemma send_round_inv: "main_pc n = Sending \<Longrightarrow> node_a_inv (send_round E t now wr n)"
  by (auto simp: node_a_inv_def send_round_def Let_def split: prod.splits)

lemma receiver_read_inv: "node_a_inv n \<Longrightarrow> receiver_pc n = Reading b \<Longrightarrow> node_a_inv (receiver_read E w rd n)"
  by (auto simp: node_a_inv_def receiver_read_def ReadLine_def Let_def simp del: GetMessageType_iff
      split: prod.splits Result.splits read_result.splits if_splits)

lemma node_a_inv_step: "node_a_step E t n ev n' \<Longrightarrow> node_a_inv n \<Longrightarrow> node_a_inv n'"
proof (induction rule: node_a_step.induct)
  case (sends n now wr)
  then show ?case by (simp add: send_round_inv)
next
  case (reads n w rd)
  then show ?case by (simp add: receiver_read_inv)
qed (auto simp: node_a_inv_def receiver_start_def receiver_check_def receiver_call_def main_close_def main_join_def Close_client_def)

lemma node_a_inv_run: "node_a_run E t n evs n' \<Longrightarrow> node_a_inv n \<Longrightarrow> node_a_inv n'"
  by (induction rule: node_a_run.induct) (auto intro: node_a_inv_step)

lemma node_a_run_append:
  "node_a_run E t n evs n' \<Longrightarrow> node_a_run E t n' evs' n'' \<Longrightarrow> node_a_run E t n (evs @ evs') n''"
  by (induction rule: node_a_run.induct) (auto intro: run_a_cons)

lemma blocked_read_fails:
  assumes "receiver_pc n = Reading w"
  shows "\<exists>ev n'. node_a_step E t n ev n' \<and> receiver_pc n' = ReceiverDone \<and> main_pc n' = main_pc n"
proof -
  have "\<not> w \<or> (\<exists>m c. ReadFailed ''eof'' [] = ReadFailed m c)" by simp
  note f = receiver_read_failed(4,7) [OF this, of E n]
  have "node_a_step E t n (ReceiverReads (ReadFailed ''eof'' [])) (receiver_read E w (ReadFailed ''eof'' []) n)"
    by (rule node_a_step.reads [OF assms]) simp
  then show ?thesis using f by blast
qed

lemma receiver_finishes:
  assumes "\<not> is_runnig n" and "main_pc n \<noteq> Sending"
  shows "\<exists>evs n'. node_a_run E t n evs n' \<and> receiver_pc n' = ReceiverDone \<and> main_pc n' = main_pc n"
proof (cases "receiver_pc n")
  case ReceiverStart
  show ?thesis
    by (rule exI [of _ "[ReceiverOpens False]"], rule exI [of _ "receiver_start False n"])
      (use node_a_step.opens [OF ReceiverStart, of E t False] in \<open>simp add: node_a_run_Cons receiver_start_def\<close>)
next
  case LoopTop
  show ?thesis
    by (rule exI [of _ "[ReceiverChecks]"], rule exI [of _ "receiver_check n"])
      (use node_a_step.checks [OF LoopTop, of E t] assms in \<open>simp add: node_a_run_Cons receiver_check_def\<close>)
next
  case CallsRead
  have "node_a_step E t n ReceiverCalls (receiver_call n)" by (rule node_a_step.calls [OF CallsRead])
  moreover obtain ev n' where "node_a_step E t (receiver_call n) ev n'" "receiver_pc n' = ReceiverDone"
      "main_pc n' = main_pc (receiver_call n)"
    using blocked_read_fails [of "receiver_call n" "IsConnected (client_a n)" E t] by (auto simp: receiver_call_def)
  ultimately show ?thesis
    by (intro exI [of _ "[ReceiverCalls, ev]"] exI [of _ n']) (auto simp: node_a_run_Cons receiver_call_def)
next
  case (Reading w)
  then obtain ev n' where "node_a_step E t n ev n'" "receiver_pc n' = ReceiverDone" "main_pc n' = main_pc n"
    using blocked_read_fails [of n] by blast
  then show ?thesis by (intro exI [of _ "[ev]"] exI [of _ n']) (auto simp: node_a_run_Cons)
next
  case ReceiverDone
  show ?thesis by (rule exI [of _ "[]"], rule exI [of _ n]) (simp add: ReceiverDone)
qed

lemma shutdown:
  assumes "node_a_inv n" and "main_pc n \<noteq> Sending"
  shows "\<exists>evs n'. node_a_run E t n evs n' \<and> main_pc n' = Exited exit_success"
proof -
  have close: "\<exists>evs n'. node_a_run E t n evs n' \<and> node_a_inv n' \<and> (main_pc n' = Joining \<or> (\<exists>c. main_pc n' = Exited c))"
  proof (cases "main_pc n = Closing")
    case True
    note step = node_a_step.closes [OF True, of E t]
    show ?thesis
      by (rule exI [of _ "[MainCloses]"], rule exI [of _ "main_close n"])
        (use step node_a_inv_step [OF step assms(1)] in \<open>simp add: node_a_run_Cons main_close_def\<close>)
  next
    case False
    then show ?thesis using assms
      by (intro exI [of _ "[]"] exI [of _ n]) (cases "main_pc n"; simp)
  qed
  then obtain evs1 n1 where n1: "node_a_run E t n evs1 n1" "node_a_inv n1"
      "main_pc n1 = Joining \<or> (\<exists>c. main_pc n1 = Exited c)" by blast
  show ?thesis
  proof (cases "main_pc n1 = Joining")
    case True
    have "\<not> is_runnig n1" using n1(2) True by (simp add: node_a_inv_def)
    then obtain evs2 n2 where n2: "node_a_run E t n1 evs2 n2" "receiver_pc n2 = ReceiverDone" "main_pc n2 = Joining"
      using receiver_finishes [of n1 E t] True by auto
    have join: "node_a_run E t n2 [MainJoins] (main_join n2)"
      using node_a_step.joins [OF n2(3,2)] by (simp add: node_a_run_Cons)
    show ?thesis
      by (intro exI conjI, rule node_a_run_append [OF n1(1) node_a_run_append [OF n2(1) join]])
        (simp add: main_join_def)
  next
    case False
    then show ?thesis using n1 by (auto simp: node_a_inv_def)
  qed
qed

subsection \<open>Properties of Node A\<close>

text \<open>The state in which both threads start, after connecting and saying hello.\<close>

definition started_node_a :: "'j env \<Rightarrow> NodeA" where
  "started_node_a E = snd (node_a_main E None Connected Written)"

lemma started_node_a:
  "fst (node_a_main E None Connected Written) = None"
  "client_a (started_node_a E) = connected_client\<lparr>client_sent := client_frame (json_dump E (MakeHelloMessage E k_role_A))\<rparr>"
  "receiver_pc (started_node_a E) = ReceiverStart" "main_pc (started_node_a E) = Sending"
  "module_log (started_node_a E) = []" "emulator (started_node_a E) = new_emulator"
  "generated_packets_count (started_node_a E) = 0" "is_runnig (started_node_a E)"
  "client_open (client_a (started_node_a E))" "input_buf (client_a (started_node_a E)) = []"
  by (simp_all add: started_node_a_def node_a_main_def Connect_def new_node_a_def WriteJson_def WriteLine_def
      IsConnected_def connected_client_def new_client_def Let_def)

text \<open>
  C22. However the two threads interleave, \<open>accel/module.log\<close> holds exactly the valid modules
  among the lines read, in the order they arrived. No line stops the receiver: unless opening
  the log, a read or a write of \<open>main\<close> has failed, the flag is still set and the receiver has
  not ended, and from the top of its loop it gets to the next blocking read.
\<close>

theorem node_a_log:
  assumes "node_a_run E t (started_node_a E) evs n"
  shows "module_log n = List.map_filter (logged E) (lines_of [] (chunks_read evs)) \<and>
    (list_all (\<lambda>ev. \<not> stops_receiver ev) evs \<longrightarrow>
       is_runnig n \<and> receiver_pc n \<noteq> ReceiverDone \<and>
       (receiver_pc n = LoopTop \<longrightarrow>
          (\<exists>n'. node_a_run E t n [ReceiverChecks, ReceiverCalls] n' \<and> receiver_pc n' = Reading True)))"
proof -
  have "receiving (started_node_a E)" using started_node_a(3,4,8,9) [of E] by (simp add: receiving_def)
  then have r: "list_all (\<lambda>ev. \<not> stops_receiver ev) evs \<longrightarrow> receiving n" using receiving_run [OF assms] by blast
  then show ?thesis using log_of_run [OF assms] receiving_goes_on [of n E t]
    by (auto simp: started_node_a connected_client_def new_client_def receiving_def)
qed

lemma logged_built:
  assumes "builder_laws E" "number_laws E" "text_laws E" and "sendable_module m"
  shows "logged E (json_dump E (ToJson_module E m)) = Some m"
  using module_codec.text_roundtrip [OF assms] module_codec.line_shape(1) [OF assms(3,4)]
  by (auto simp: logged_def ParseJsonLine_def simp flip: GetMessageType_iff simp del: GetMessageType_iff)

text \<open>Node A after reading one line.\<close>

definition node_a_read :: "'j env \<Rightarrow> string \<Rightarrow> NodeA" where
  "node_a_read E l = receiver_read E True (Received (l @ [newline]))
     (receiver_call (receiver_check (receiver_start True (started_node_a E))))"

lemma node_a_read_run:
  "node_a_run E t (started_node_a E)
     [ReceiverOpens True, ReceiverChecks, ReceiverCalls, ReceiverReads (Received (l @ [newline]))] (node_a_read E l)"
proof -
  define n1 n2 n3 where "n1 = receiver_start True (started_node_a E)" and "n2 = receiver_check n1"
    and "n3 = receiver_call n2"
  have pc: "receiver_pc n1 = LoopTop" "receiver_pc n2 = CallsRead" "receiver_pc n3 = Reading True"
    using started_node_a(8,9) [of E]
    by (simp_all add: n1_def n2_def n3_def receiver_start_def receiver_check_def receiver_call_def IsConnected_def)
  show ?thesis
    using node_a_step.opens [OF started_node_a(3) [of E], of E t True] node_a_step.checks [OF pc(1), of E t]
      node_a_step.calls [OF pc(2), of E t] node_a_step.reads [OF pc(3), of "Received (l @ [newline])" E t]
    by (auto simp: node_a_run_Cons node_a_read_def n1_def n2_def n3_def)
qed

theorem node_a_log_witness:
  "module_log (node_a_read jenv (json_dump jenv (ToJson_module jenv sample_module))) = [sample_module] \<and>
   is_runnig (node_a_read jenv (json_dump jenv (ToJson_module jenv sample_module)))"
proof -
  define l where "l = json_dump jenv (ToJson_module jenv sample_module)"
  have safe: "line_safe l" unfolding l_def
    by (rule line_safe_visible, rule module_codec.line_shape(2) [OF jenv_text_laws sample_module_sendable])
  from node_a_log [OF node_a_read_run [of jenv 1000000 l]]
  have "module_log (node_a_read jenv l) = List.map_filter (logged jenv) [l]" and "is_runnig (node_a_read jenv l)"
    using safe getline_append [of l "[]"] by (simp_all add: strip_cr_safe line_safe_def)
  then show ?thesis
    using logged_built [OF jenv_builder_laws jenv_number_laws jenv_text_laws sample_module_sendable]
    unfolding l_def by simp
qed

text \<open>
  C23. However the two threads interleave, the bytes Node A has sent are a prefix of its hello followed by one line per
  packet the emulator made, in order; as long as it is sending they are all of them, and
  the counter counts them.
\<close>

theorem node_a_sends:
  assumes "node_a_run E t (started_node_a E) evs n"
  defines "stream \<equiv> client_frame (json_dump E (MakeHelloMessage E k_role_A)) @
     concat (map (packet_line E) (packets E t (clocks_read evs) new_emulator))"
  shows "prefix (client_sent (client_a n)) stream \<and>
    (main_pc n = Sending \<longrightarrow> client_sent (client_a n) = stream \<and>
       generated_packets_count n = of_nat (length (clocks_read evs)))"
  using sent_of_run [OF assms(1) started_node_a(4,9)] by (simp add: started_node_a stream_def)

theorem node_a_sends_witness:
  "client_sent (client_a (send_round jenv 1000000 7000000 Written (started_node_a jenv))) =
     client_frame (json_dump jenv (MakeHelloMessage jenv k_role_A)) @
     packet_line jenv (fst (NextPacket jenv 1000000 7000000 new_emulator))"
proof -
  have run: "node_a_run jenv 1000000 (started_node_a jenv) [MainSends 7000000 Written]
      (send_round jenv 1000000 7000000 Written (started_node_a jenv))"
    using node_a_step.sends [OF started_node_a(4)] by (auto simp: node_a_run_Cons)
  obtain p em where np: "NextPacket jenv 1000000 7000000 new_emulator = (p, em)" by fastforce
  have "main_pc (send_round jenv 1000000 7000000 Written (started_node_a jenv)) = Sending"
    using send_round_written(5) [OF started_node_a(9)] started_node_a(4,6) np by metis
  then show ?thesis using node_a_sends [OF run] by (simp add: np)
qed

text \<open>
  C38. The sending loop does not look at \<open>is_runnig\<close>: when the log cannot be opened the
  receiver clears the flag and ends, and \<open>main\<close> goes on sending packets, any number of them,
  while every module it is sent in return is lost.
\<close>

theorem sender_ignores_flag:
  "\<exists>n. node_a_run E t (started_node_a E) (ReceiverOpens False # map (\<lambda>now. MainSends now Written) nows) n \<and>
     \<not> is_runnig n \<and> receiver_pc n = ReceiverDone \<and> main_pc n = Sending \<and> module_log n = [] \<and>
     generated_packets_count n = of_nat (length nows)"
proof -
  have sends: "\<exists>n'. node_a_run E t n (map (\<lambda>now. MainSends now Written) nows) n' \<and>
      is_runnig n' = is_runnig n \<and> receiver_pc n' = receiver_pc n \<and> main_pc n' = Sending \<and> module_log n' = module_log n \<and>
      generated_packets_count n' = generated_packets_count n + of_nat (length nows)"
    if "main_pc n = Sending" "client_open (client_a n)" for n
    using that
  proof (induction nows arbitrary: n)
    case (Cons now nows)
    obtain p em where np: "NextPacket E t now (emulator n) = (p, em)" by fastforce
    note s = send_round_written [OF Cons.prems(2) np]
    have "client_open (client_a (send_round E t now Written n))" using s(1) Cons.prems(2) by simp
    then obtain n' where "node_a_run E t (send_round E t now Written n) (map (\<lambda>now. MainSends now Written) nows) n' \<and>
        is_runnig n' = is_runnig (send_round E t now Written n) \<and>
        receiver_pc n' = receiver_pc (send_round E t now Written n) \<and> main_pc n' = Sending \<and>
        module_log n' = module_log (send_round E t now Written n) \<and>
        generated_packets_count n' = generated_packets_count (send_round E t now Written n) + of_nat (length nows)"
      using Cons.IH [of "send_round E t now Written n"] s(5) Cons.prems(1) by auto
    then show ?case
      using s node_a_step.sends [OF Cons.prems(1), of E t now Written]
      by (intro exI [of _ n']) (auto simp: node_a_run_Cons)
  qed auto
  define n where "n = receiver_start False (started_node_a E)"
  have "node_a_step E t (started_node_a E) (ReceiverOpens False) n"
    unfolding n_def by (rule node_a_step.opens) (simp add: started_node_a)
  moreover have "main_pc n = Sending" "client_open (client_a n)" "\<not> is_runnig n" "receiver_pc n = ReceiverDone"
      "module_log n = []" "generated_packets_count n = 0"
    by (simp_all add: n_def receiver_start_def started_node_a [simplified connected_client_def])
  ultimately show ?thesis using sends [of n] by (auto simp: node_a_run_Cons)
qed

text \<open>
  C28. Once a write has failed Node A shuts down: from any state after that the program can
  run to its end, and it ends with \<open>EXIT_SUCCESS\<close> only after the receiver thread has been
  joined and the connection closed.
\<close>

theorem node_a_shutdown:
  assumes "node_a_run E t (started_node_a E) evs n"
  shows "(main_pc n \<noteq> Sending \<longrightarrow> (\<exists>evs' n'. node_a_run E t n evs' n' \<and> main_pc n' = Exited exit_success)) \<and>
    (\<forall>c. main_pc n = Exited c \<longrightarrow>
       c = exit_success \<and> receiver_pc n = ReceiverDone \<and> \<not> client_open (client_a n))"
proof -
  have "node_a_inv (started_node_a E)" by (simp add: node_a_inv_def started_node_a)
  note inv = node_a_inv_run [OF assms this]
  then show ?thesis using shutdown [OF inv, of E t] by (simp add: node_a_inv_def)
qed


theorem node_a_shutdown_witness:
  "\<exists>evs n. node_a_run jenv 1000000 (send_round jenv 1000000 0 (WriteFailed ''reset'' 0) (started_node_a jenv)) evs n \<and>
     main_pc n = Exited exit_success"
proof -
  have run: "node_a_run jenv 1000000 (started_node_a jenv) [MainSends 0 (WriteFailed ''reset'' 0)]
      (send_round jenv 1000000 0 (WriteFailed ''reset'' 0) (started_node_a jenv))"
    using node_a_step.sends [OF started_node_a(4)] by (auto simp: node_a_run_Cons)
  obtain p em where np: "NextPacket jenv 1000000 0 new_emulator = (p, em)" by fastforce
  have "main_pc (send_round jenv 1000000 0 (WriteFailed ''reset'' 0) (started_node_a jenv)) = Closing"
    using send_round_failed(5) [OF started_node_a(9)] started_node_a(6) np by metis
  then show ?thesis using node_a_shutdown [OF run, THEN conjunct1] by simp
qed

end
