(* ===== verification/Delivery.thy ===== *)
theory Delivery
  imports RelaySpec NodeA
begin

text \<open>
  What the server reads over whole runs: the lines of a connection, the packets and modules
  in them, and that clients which get no role contribute nothing.
\<close>

subsection \<open>The lines of a connection\<close>

fun chunks_at :: "addr \<Rightarrow> event list \<Rightarrow> string list" where
  "chunks_at a [] = []"
| "chunks_at a (ReadEvent b (ReadData chunk) # evs) = (if b = a then [chunk] else []) @ chunks_at a evs"
| "chunks_at a (_ # evs) = chunks_at a evs"

lemma chunks_at_append [simp]: "chunks_at a (xs @ ys) = chunks_at a xs @ chunks_at a ys"
  by (induction a xs rule: chunks_at.induct) auto

lemma chunks_at_Cons: "chunks_at a (ev # evs) = chunks_at a [ev] @ chunks_at a evs"
  using chunks_at_append [of a "[ev]" evs] by simp

lemma no_chunk: "\<not> (\<exists>chunk. ev = ReadEvent a (ReadData chunk)) \<Longrightarrow> chunks_at a [ev] = []"
  by (cases "(a, [ev])" rule: chunks_at.cases) auto

definition next_buffer :: "string \<Rightarrow> string \<Rightarrow> string" where
  "next_buffer chunk buf = snd (getline (buf @ chunk))"

definition fresh_sessions :: "server \<Rightarrow> bool" where
  "fresh_sessions w \<longleftrightarrow> (\<forall>b. next_addr w \<le> b \<longrightarrow> buffer (objects w b) = [] \<and> role (objects w b) = [])"

lemma buffer_step:
  assumes "server_step E w ev v" and "server_inv w" and "fresh_sessions w"
  shows "buffer (objects v b) = fold next_buffer (chunks_at b [ev]) (buffer (objects w b)) \<and> fresh_sessions v"
  using assms(1)
proof cases
  case (accept r)
  then show ?thesis using assms(3)
    by (auto simp: fresh_sessions_def on_accept_def create_session_def AcceptNext_def Start_session_def ReadNextLine_def
        new_session_def Let_def split: accept_completion.splits option.splits)
next
  case (read a r)
  have a: "a < next_addr w" using live_below [OF assms(2) read(4)] .
  show ?thesis
  proof (cases r)
    case (ReadFail e)
    then show ?thesis using read assms(3)
      by (auto simp: fresh_sessions_def on_read_def objects_Close Let_def)
  next
    case (ReadData chunk)
    note x = extendsD(2,7) [OF extends_HandleLine [OF core_queues [OF core_line_taken [OF server_invD(1) [OF assms(2)],
          of a chunk]], of E a "next_line (objects w a) chunk"]]
    have "buffer (objects v c) = (if c = a then next_buffer chunk (buffer (objects w a)) else buffer (objects w c))"
        "next_addr v = next_addr w" for c
      using x by (simp_all add: read ReadData on_read_line Let_def line_taken_def next_buffer_def)
    moreover have "role (objects v c) = role (objects w c)" if "c \<noteq> a" for c
      using role_on_read [OF server_invD(1) [OF assms(2)] read(4), of E chunk c] that
      by (simp add: read ReadData split: option.splits)
    ultimately show ?thesis using assms(3) a by (auto simp: read ReadData fresh_sessions_def)
  qed
next
  case (written a m)
  then show ?thesis using assms(3) by (auto simp: fresh_sessions_def on_write_success)
next
  case (write_failed a m error n)
  then show ?thesis using assms(3) by (auto simp: fresh_sessions_def on_write_def objects_Close Let_def)
qed

lemma reads_complete:
  "server_run E w evs w' \<Longrightarrow> server_inv w \<Longrightarrow> fresh_sessions w \<Longrightarrow>
   complete_reads (buffer (objects w a)) (chunks_at a evs) \<and>
   buffer (objects w' a) = fold next_buffer (chunks_at a evs) (buffer (objects w a)) \<and> fresh_sessions w'"
proof (induction rule: server_run.induct)
  case (run_cons w ev v evs w')
  note b = buffer_step [OF run_cons.hyps(1) run_cons.prems, of a]
  have "complete_reads (buffer (objects w a)) (chunks_at a [ev])"
    using run_cons.hyps(1) by cases (auto simp: read_enabled_def split: read_completion.splits)
  then show ?case using run_cons.IH [OF server_step_inv [OF run_cons.hyps(1) run_cons.prems(1)]] b
    unfolding chunks_at_Cons [of a ev evs]
    by (simp add: complete_reads_append next_buffer_def [abs_def])
qed simp

lemma started_fresh: "fresh_sessions started" "buffer (objects started a) = []"
  by (simp_all add: fresh_sessions_def started_def AcceptNext_def initial_server_def new_session_def)


subsection \<open>What the lines carry\<close>

definition packet_carried :: "'j env \<Rightarrow> string \<Rightarrow> AccelPacket option" where
  "packet_carried E line = (case message_of E line of Packet p \<Rightarrow> Some p | _ \<Rightarrow> None)"

definition module_carried :: "'j env \<Rightarrow> string \<Rightarrow> AccelModule option" where
  "module_carried E line = (case message_of E line of Module m \<Rightarrow> Some m | _ \<Rightarrow> None)"

lemma carried_by_role:
  assumes "number_laws E"
  shows "packet_in_line E s line = (if role s = k_role_A then packet_carried E line else None)"
    and "module_in_line E s line = (if role s = k_role_B then module_carried E line else None)"
  using message_of_cases(2,3) [OF assms, where line = line and s = s]
  by (simp_all add: packet_carried_def module_carried_def split: message.splits)

lemma lines_of_Cons:
  "lines_of buf (chunk # chunks) = strip_cr (fst (getline (buf @ chunk))) # lines_of (next_buffer chunk buf) chunks"
  by (simp add: next_buffer_def split: prod.splits)

lemma packets_of_lines:
  "server_run E w evs w' \<Longrightarrow> server_inv w \<Longrightarrow> fresh_sessions w \<Longrightarrow> number_laws E \<Longrightarrow>
   role (objects w a) = k_role_A \<Longrightarrow> a < next_addr w \<Longrightarrow>
   packets_received E a evs w =
     List.map_filter (packet_carried E) (lines_of (buffer (objects w a)) (chunks_at a evs))"
proof (induction rule: server_run.induct)
  case (run_cons w ev v evs w')
  note b = buffer_step [OF run_cons.hyps(1) run_cons.prems(1,2), of a]
  have r: "role (objects v a) = k_role_A" "a < next_addr v"
    using role_step [OF run_cons.hyps(1) run_cons.prems(1,5)] run_cons.prems(4,5) by auto
  note ih = run_cons.IH [OF server_step_inv [OF run_cons.hyps(1) run_cons.prems(1)] _ run_cons.prems(3) r]
  have ex: "exec_event E ev w = Some v" using run_cons.hyps(1) by (simp add: exec_event_iff)
  show ?case
  proof (cases "\<exists>chunk. ev = ReadEvent a (ReadData chunk)")
    case True
    then obtain chunk where ev: "ev = ReadEvent a (ReadData chunk)" by blast
    show ?thesis using ih b run_cons.prems(4)
      by (auto simp: ev ex [unfolded ev] packet_by_def carried_by_role [OF run_cons.prems(3)] next_line_def
          lines_of_Cons List.map_filter_simps simp del: exec_event.simps lines_of.simps split: option.splits)
  next
    case False
    then have "chunks_at a [ev] = []" "packet_by E a ev w = None"
      using no_chunk [of ev a] by (auto simp: packet_by_def split: event.splits read_completion.splits)
    then show ?thesis using ih b chunks_at_Cons [of a ev evs] by (simp add: ex del: exec_event.simps)
  qed
qed (simp add: List.map_filter_simps)

subsection \<open>Only the two nodes have a role\<close>

definition only_nodes :: "addr \<Rightarrow> addr \<Rightarrow> server \<Rightarrow> bool" where
  "only_nodes a b w \<longleftrightarrow>
     GetNodeA (live w) (registry w) = Some a \<and> GetNodeB (live w) (registry w) = Some b \<and>
     (\<forall>c. c \<noteq> a \<and> c \<noteq> b \<longrightarrow> role (objects w c) = [])"

lemma role_elsewhere:
  assumes "server_step E w ev v" and "server_inv w" and "role (objects w c) = []"
    and "GetNodeA (live w) (registry w) \<noteq> None" and "GetNodeB (live w) (registry w) \<noteq> None"
  shows "role (objects v c) = []"
  using assms(1)
proof cases
  case (accept r)
  then show ?thesis using assms(3)
    by (auto simp: on_accept_def create_session_def AcceptNext_def Start_session_def ReadNextLine_def new_session_def
        Let_def split: accept_completion.splits option.splits)
next
  case (read x r)
  show ?thesis
  proof (cases r)
    case (ReadFail e)
    then show ?thesis using read assms(3) by (auto simp: on_read_def objects_Close Let_def)
  next
    case (ReadData chunk)
    have "r' = k_role_A \<or> r' = k_role_B" if "role_in_line E (next_line (objects w x) chunk) = Some r'" for r'
      using HandleLine_role [OF that, of x w] by simp
    then show ?thesis
      using role_on_read [OF server_invD(1) [OF assms(2)] read(4), of E chunk c] assms(3-5)
      by (auto simp: read ReadData split: option.splits)
  qed
next
  case (written x m)
  then show ?thesis using assms(3) by (auto simp: on_write_success)
next
  case (write_failed x m error n)
  then show ?thesis using assms(3) by (auto simp: on_write_def objects_Close Let_def)
qed

lemma only_nodes_step:
  assumes "server_step E w ev v" and "server_inv w" and "life_ok w" and "only_nodes a b w"
    and "\<not> session_closed (objects v a)" and "\<not> session_closed (objects v b)"
  shows "only_nodes a b v"
  using still_registered [OF assms(1-3), of k_role_A a] still_registered [OF assms(1-3), of k_role_B b]
    role_elsewhere [OF assms(1,2)] assms(4-6)
  by (auto simp: only_nodes_def)

lemma only_nodes_roles:
  assumes "only_nodes a b w" and "core w"
  shows "role (objects w a) = k_role_A" "role (objects w b) = k_role_B" "a \<noteq> b" "live w a" "live w b"
  using GetNode_iff [OF assms(2), of k_role_A a] GetNode_iff [OF assms(2), of k_role_B b] assms(1)
  by (auto simp: only_nodes_def)


lemma module_by_lines:
  assumes "only_nodes a b w" and "core w" and "number_laws E"
  shows "module_by E ev w =
     List.map_filter (module_carried E) (lines_of (buffer (objects w b)) (chunks_at b [ev]))"
proof (cases "\<exists>chunk. ev = ReadEvent b (ReadData chunk)")
  case True
  then show ?thesis using only_nodes_roles(2) [OF assms(1,2)]
    by (auto simp: module_by_def carried_by_role [OF assms(3)] next_line_def lines_of_Cons List.map_filter_simps
        simp del: lines_of.simps(2) split: option.splits)
next
  case False
  have "role (objects w c) \<noteq> k_role_B" if "c \<noteq> b" for c
    using assms(1) only_nodes_roles(1) [OF assms(1,2)] that by (cases "c = a") (auto simp: only_nodes_def)
  then show ?thesis using False no_chunk [of ev b]
    by (auto simp: module_by_def carried_by_role [OF assms(3)] List.map_filter_simps
        split: event.splits read_completion.splits)
qed

lemma accepted_by_node:
  assumes "only_nodes a b w" and "core w" and "number_laws E"
  shows "accepted_by E ev w =
     (case packet_by E a ev w of None \<Rightarrow> [] | Some p \<Rightarrow> if is_repeat E (objects w a) p then [] else [p])"
proof -
  have "role (objects w c) \<noteq> k_role_A" if "c \<noteq> a" for c
    using assms(1) only_nodes_roles(2) [OF assms(1,2)] that by (cases "c = b") (auto simp: only_nodes_def)
  then show ?thesis
    by (auto simp: accepted_by_def packet_by_def carried_by_role [OF assms(3)]
        split: event.splits read_completion.splits option.splits)
qed

lemma map_filter_append: "List.map_filter f (xs @ ys) = List.map_filter f xs @ List.map_filter f ys"
  by (simp add: List.map_filter_def)

lemma lines_of_split:
  "lines_of buf (chunks_at b (ev # evs)) =
     lines_of buf (chunks_at b [ev]) @ lines_of (fold next_buffer (chunks_at b [ev]) buf) (chunks_at b evs)"
  using lines_of_append [of buf "chunks_at b [ev]" "chunks_at b evs"] chunks_at_Cons [of b ev evs]
  by (simp add: next_buffer_def [abs_def])

lemma nodes_run:
  "server_run E w evs w' \<Longrightarrow> server_inv w \<Longrightarrow> life_ok w \<Longrightarrow> fresh_sessions w \<Longrightarrow> number_laws E \<Longrightarrow> only_nodes a b w \<Longrightarrow>
   \<not> session_closed (objects w' a) \<Longrightarrow> \<not> session_closed (objects w' b) \<Longrightarrow>
   along E (accepted_by E) evs w = packets_accepted E a evs w \<and>
   along E (module_by E) evs w =
     List.map_filter (module_carried E) (lines_of (buffer (objects w b)) (chunks_at b evs))"
proof (induction rule: server_run.induct)
  case (run_cons w ev v evs w')
  note inv = server_step_inv [OF run_cons.hyps(1) run_cons.prems(1)]
  note c = server_invD(1) [OF run_cons.prems(1)]
  note n = only_nodes_roles [OF run_cons.prems(5) c]
  have below: "a < next_addr v" "b < next_addr v"
    using role_step [OF run_cons.hyps(1) run_cons.prems(1)] live_below [OF run_cons.prems(1)] n(4,5)
    by (meson le_trans not_le)+
  have "\<not> session_closed (objects v a)" "\<not> session_closed (objects v b)"
    using closed_run [OF run_cons.hyps(2) inv] below run_cons.prems(6,7) by blast+
  note only = only_nodes_step [OF run_cons.hyps(1) run_cons.prems(1,2,5) this]
  note b = buffer_step [OF run_cons.hyps(1) run_cons.prems(1,3), of b]
  note ih = run_cons.IH [OF inv life_step [OF run_cons.hyps(1) run_cons.prems(1,2)] _ run_cons.prems(4) only
      run_cons.prems(6,7)]
  have ex: "exec_event E ev w = Some v" using run_cons.hyps(1) by (simp add: exec_event_iff)
  show ?case using ih b
    unfolding lines_of_split [of "buffer (objects w b)" b ev evs]
    by (simp add: ex map_filter_append accepted_by_node [OF run_cons.prems(5) c run_cons.prems(4)]
        module_by_lines [OF run_cons.prems(5) c run_cons.prems(4)] del: exec_event.simps)
qed (simp add: List.map_filter_simps)

lemma role_change:
  assumes "server_step E w ev v" and "server_inv w" and "fresh_sessions w"
  shows "role (objects w c) \<noteq> [] \<Longrightarrow> role (objects v c) = role (objects w c)"
    and "role (objects w c) = [] \<Longrightarrow> role (objects v c) \<noteq> [] \<Longrightarrow> chunks_at c [ev] \<noteq> []"
proof -
  show "role (objects w c) \<noteq> [] \<Longrightarrow> role (objects v c) = role (objects w c)"
    using role_step [OF assms(1,2), of c] assms(3) by (cases "c < next_addr w") (auto simp: fresh_sessions_def)
  assume r: "role (objects w c) = []" "role (objects v c) \<noteq> []"
  from assms(1) show "chunks_at c [ev] \<noteq> []"
  proof cases
    case (accept x)
    then show ?thesis using r
      by (auto simp: on_accept_def create_session_def AcceptNext_def Start_session_def ReadNextLine_def new_session_def
          Let_def split: accept_completion.splits option.splits if_splits)
  next
    case (read x res)
    then show ?thesis using r role_on_read [OF server_invD(1) [OF assms(2)] read(4), of E _ c]
      by (cases res; cases "c = x") (auto simp: on_read_def objects_Close Let_def split: option.splits if_splits)
  next
    case (written x m)
    then show ?thesis using r by (auto simp: on_write_success split: if_splits)
  next
    case (write_failed x m error n)
    then show ?thesis using r by (auto simp: on_write_def objects_Close Let_def split: if_splits)
  qed
qed

subsection \<open>Before the first message\<close>

text \<open>
  While no session with a role has been read from more than once, the lines read are hellos
  and refused lines: nothing has been queued for anyone and no packet has been received.
\<close>

lemma silent_event:
  assumes "\<And>c chunk. ev = ReadEvent c (ReadData chunk) \<Longrightarrow> role (objects v c) = []"
  shows "queued_by E b ev v = []" "packet_by E b ev v = None"
  using assms
  by (auto simp: queued_by_def packet_by_def forwards_def packet_in_line_def module_in_line_def
      split: event.splits read_completion.splits)

lemma silent_run:
  "server_run E started evs w \<Longrightarrow>
   (\<forall>c. role (objects w c) \<noteq> [] \<longrightarrow> chunks_at c evs \<noteq> []) \<and>
   ((\<forall>c. role (objects w c) \<noteq> [] \<longrightarrow> length (chunks_at c evs) \<le> 1) \<longrightarrow>
      (\<forall>b. outbox E b evs started = [] \<and> packets_received E b evs started = []))"
proof (induction evs arbitrary: w rule: rev_induct)
  case Nil
  then show ?case
    by (simp add: started_def AcceptNext_def initial_server_def new_session_def)
next
  case (snoc ev evs)
  then obtain v where run: "server_run E started evs v" and step: "server_step E v ev w"
    by (auto simp: server_run_append server_run_Cons)
  have "reachable E v" using run by (auto simp: reachable_def)
  note inv = reachable_inv [OF this]
  note ih = snoc.IH [OF run]
  note change = role_change [OF step inv reads_complete [OF run started_inv started_fresh(1), THEN conjunct2, THEN conjunct2]]
  have first: "\<forall>c. role (objects w c) \<noteq> [] \<longrightarrow> chunks_at c (evs @ [ev]) \<noteq> []"
    using ih change(2) by (metis Nil_is_append_conv chunks_at_append)
  have "\<forall>b. outbox E b (evs @ [ev]) started = [] \<and> packets_received E b (evs @ [ev]) started = []"
    if once: "\<forall>c. role (objects w c) \<noteq> [] \<longrightarrow> length (chunks_at c (evs @ [ev])) \<le> 1"
  proof -
    have old: "length (chunks_at c evs) \<le> 1" if "role (objects v c) \<noteq> []" for c
      using once change(1) [OF that] that by (metis add_leD1 chunks_at_append length_append)
    have quiet: "role (objects v c) = []" if ev: "ev = ReadEvent c (ReadData chunk)" for c chunk
    proof (rule ccontr)
      assume r: "role (objects v c) \<noteq> []"
      then have "chunks_at c evs \<noteq> []" using ih by blast
      then have "2 \<le> length (chunks_at c (evs @ [ev]))" by (cases "chunks_at c evs") (auto simp: ev)
      then have "\<not> length (chunks_at c (evs @ [ev])) \<le> 1" by simp
      then show False using once change(1) [OF r] r by metis
    qed
    have "queued_by E b ev v = []" "packet_by E b ev v = None" for b using silent_event [of ev v E b] quiet by blast+
    then show ?thesis using ih old outbox_append [OF run] packets_received_append [OF run] outbox_step [OF step, of _ "[]"] step
      by (simp add: exec_event_iff [symmetric] del: exec_event.simps)
  qed
  then show ?case using first by blast
qed


lemma reachable_unused: "reachable E w \<Longrightarrow> unused_ok w"
  by (induction rule: reachable_induct) (use started_filter filter_step reachable_inv in blast)+

lemma silent_state:
  assumes "server_run E started evs w" and "\<And>c. role (objects w c) \<noteq> [] \<Longrightarrow> length (chunks_at c evs) \<le> 1"
  shows "filter_ok E [] (objects w b)" and "wire w b = []"
    and "\<not> session_closed (objects w b) \<Longrightarrow> concat (write_queue (objects w b)) = []"
proof -
  have q: "outbox E b evs started = []" "packets_received E b evs started = []"
    using silent_run [OF assms(1)] assms(2) by blast+
  show "filter_ok E [] (objects w b)"
    using filter_run [OF assms(1) started_inv started_filter, of b] q(2) by simp
  have "stream_ok [] w b" using stream_run [OF assms(1) started_inv started_stream, of b] q(1) by simp
  then show "wire w b = []" and "\<not> session_closed (objects w b) \<Longrightarrow> concat (write_queue (objects w b)) = []"
    by (auto simp: stream_ok_def)
qed

text \<open>
  The server's part of the circle. \<open>w0\<close> is reached with both nodes registered, their hellos
  read and nothing else; from there on the packets of Node A's lines are filtered and sent to
  Node B, and the modules of Node B's lines are sent to Node A, whatever other clients do.
\<close>

lemma relayed:
  assumes "number_laws E" and "server_run E started evs0 w0" and "only_nodes a b w0"
    and "length (chunks_at a evs0) = 1" and "length (chunks_at b evs0) = 1"
    and "server_run E w0 evs w" and "\<not> session_closed (objects w a)" and "\<not> session_closed (objects w b)"
  defines "lines \<equiv> \<lambda>c. tl (lines_of [] (chunks_at c (evs0 @ evs)))"
  shows "wire w b @ concat (write_queue (objects w b)) = concat (map (packet_frame E)
      (drop_repeats (IsDuplicate (llround_unspecified E)) None (List.map_filter (packet_carried E) (lines a))))"
    and "wire w a @ concat (write_queue (objects w a)) = concat (map (module_frame E)
      (List.map_filter (module_carried E) (lines b)))"
    and "complete_reads [] (chunks_at c (evs0 @ evs))"
proof -
  note run0 = reads_complete [OF assms(2) started_inv started_fresh(1), unfolded started_fresh(2)]
  have reach: "reachable E w0" using assms(2) by (auto simp: reachable_def)
  note inv = reachable_inv [OF reach] and life = reachable_life [OF reach]
  have fresh: "fresh_sessions w0" using run0 by blast
  have run: "server_run E started (evs0 @ evs) w" using assms(2,6) by (auto simp: server_run_append)
  show "complete_reads [] (chunks_at c (evs0 @ evs))"
    using reads_complete [OF run started_inv started_fresh(1), unfolded started_fresh(2)] by blast
  note n = only_nodes_roles [OF assms(3) server_invD(1) [OF inv]]
  have below: "a < next_addr w0" "b < next_addr w0" using live_below [OF inv] n(4,5) by blast+
  have once: "length (chunks_at c evs0) \<le> 1" if "role (objects w0 c) \<noteq> []" for c
    using assms(3-5) that by (cases "c = a \<or> c = b") (auto simp: only_nodes_def)
  note silent = silent_state [OF assms(2) once]
  have after: "lines c = lines_of (buffer (objects w0 c)) (chunks_at c evs)" if one: "length (chunks_at c evs0) = 1" for c
  proof -
    obtain x where "chunks_at c evs0 = [x]" using one by (cases "chunks_at c evs0") auto
    then show ?thesis using run0 [of c] by (simp add: lines_def next_buffer_def split: prod.splits)
  qed
  have opened: "\<not> session_closed (objects w0 a)" "\<not> session_closed (objects w0 b)"
    using closed_run [OF assms(6) inv] below assms(7,8) by blast+
  note along = nodes_run [OF assms(6) inv life fresh assms(1,3,7,8)]
  have "drop_repeats (IsDuplicate (llround_unspecified E)) None (packets_received E a evs w0) = packets_accepted E a evs w0"
    using filter_run [OF assms(6) inv reachable_unused [OF reach] silent(1), of a] by simp
  then have sent: "along E (accepted_by E) evs w0 =
      drop_repeats (IsDuplicate (llround_unspecified E)) None (List.map_filter (packet_carried E) (lines a))"
    using along packets_of_lines [OF assms(6) inv fresh assms(1) n(1) below(1)] after [OF assms(4)] by simp
  have reg: "GetNodeA (live w0) (registry w0) = Some a" "GetNodeB (live w0) (registry w0) = Some b"
    using assms(3) by (simp_all add: only_nodes_def)
  show "wire w b @ concat (write_queue (objects w b)) = concat (map (packet_frame E)
      (drop_repeats (IsDuplicate (llround_unspecified E)) None (List.map_filter (packet_carried E) (lines a))))"
    using to_b.stream [OF reach assms(6) _ assms(8)] reg(2) silent(2,3) [of b] opened(2) by (simp add: sent)
  show "wire w a @ concat (write_queue (objects w a)) = concat (map (module_frame E)
      (List.map_filter (module_carried E) (lines b)))"
    using to_a.stream [OF reach assms(6) _ assms(7)] reg(1) silent(2,3) [of a] opened(1) along after [OF assms(5)] by simp
qed

end
