(* ===== verification/Circle.thy ===== *)
theory Circle
  imports Delivery
begin

text \<open>
  The way of a packet around the circle: what the server reads from Node A, what Node B
  answers, what Node A logs. Each leg is the model of one program on the bytes of the
  previous one; \<open>Spec2Isabelle\<close> puts them together.
\<close>

text \<open>The module Node B answers a packet with.\<close>

definition module_for :: "AccelPacket \<Rightarrow> AccelModule" where
  "module_for p = \<lparr>module_timestamp = accel_timestamp p, module_value = module_of p\<rparr>"

lemma map_filter_built:
  "(\<And>x. x \<in> set xs \<Longrightarrow> f (g x) = Some (h x)) \<Longrightarrow> List.map_filter f (map g xs) = map h xs"
  by (induction xs) (simp_all add: List.map_filter_simps)

lemma map_filter_inverse: "(\<And>x. x \<in> set xs \<Longrightarrow> f (g x) = Some x) \<Longrightarrow> List.map_filter f (map g xs) = xs"
  using map_filter_built [of xs f g "\<lambda>x. x"] by simp

lemma carried_built:
  assumes "env_laws E"
  shows "sendable_packet p \<Longrightarrow> packet_carried E (json_dump E (ToJson_packet E p)) = Some p"
    and "sendable_module m \<Longrightarrow> module_carried E (json_dump E (ToJson_module E m)) = Some m"
  using packet_in_built [OF assms, where p = p and s = "new_session\<lparr>role := k_role_A\<rparr>"]
    module_in_built(1) [OF assms, where m = m and s = "new_session\<lparr>role := k_role_B\<rparr>"]
  by (simp_all add: carried_by_role [OF env_lawsD(2) [OF assms]])

lemma module_for_sendable: "sane_packet p \<Longrightarrow> sendable_packet p \<Longrightarrow> sendable_module (module_for p)"
  using module_of_error(1) [of p] by (simp add: sendable_module_def module_for_def module_of_def fsqrt64_valid)

lemma packets_sane:
  "trig_laws E \<Longrightarrow> p \<in> set (packets E t nows em) \<Longrightarrow> sane_packet p \<and> sendable_packet p"
proof (induction nows arbitrary: em)
  case (Cons now nows)
  obtain q em' where n: "NextPacket E t now em = (q, em')" by fastforce
  then show ?case
    using Cons NextPacket_sane [OF Cons.prems(1) n] NextPacket_bounds(1) [OF Cons.prems(1) n] by auto
qed simp

lemma set_drop_repeats: "set (drop_repeats dup k ps) \<subseteq> set ps"
  by (induction ps arbitrary: k) (auto split: option.splits)

text \<open>What Node B has sent after a run of successful reads, as frames.\<close>

lemma node_b_sent:
  assumes "read_run chunks connected_client"
  shows "client_sent (client (snd (node_b_main E None Connected Written (map (\<lambda>chunk. (Received chunk, Written)) chunks)))) =
     client_frame (json_dump E (MakeHelloMessage E k_role_B)) @
     concat (map (module_line E) (List.map_filter (answer E) (take (length chunks) (fst (drain (concat chunks))))))"
proof -
  have c: "client_open connected_client" "input_buf connected_client = []"
    by (simp_all add: connected_client_def new_client_def)
  have "client_open (client (serving_node_b E))" by (simp add: serving_node_b_def c)
  from node_b_loop_lines [OF this, of E chunks] show ?thesis
    using lines_of_run [OF c(1) assms c(2)] by (simp add: node_b_main_connected serving_node_b_def ReadLines_sent)
qed

lemmas frame_simps = packet_frame_def module_frame_def packet_line_def module_line_def

subsection \<open>The three legs\<close>

text \<open>Node A to the server: the lines read are the hello and then the packets.\<close>

lemma lines_from_a:
  assumes "env_laws E" and "trig_laws E" and "node_a_run E t (started_node_a E) evs n"
    and "complete_reads [] chunks" and "prefix (concat chunks) (client_sent (client_a n))"
  shows "lines_of [] chunks = take (length chunks) (json_dump E (MakeHelloMessage E k_role_A) #
     map (\<lambda>p. json_dump E (ToJson_packet E p)) (packets E t (clocks_read evs) new_emulator))"
proof (rule client_writer.lines_of_part [OF _ assms(4)])
  show "prefix (concat chunks) (concat (map client_frame (json_dump E (MakeHelloMessage E k_role_A) #
      map (\<lambda>p. json_dump E (ToJson_packet E p)) (packets E t (clocks_read evs) new_emulator))))"
    using sent_of_run [OF assms(3) started_node_a(4,9)] assms(5)
    by (simp add: started_node_a frame_simps [abs_def] comp_def) (blast intro: prefix_order.trans)
  show "\<forall>l \<in> set (json_dump E (MakeHelloMessage E k_role_A) #
      map (\<lambda>p. json_dump E (ToJson_packet E p)) (packets E t (clocks_read evs) new_emulator)). line_safe l"
    using built_lines_safe(1,3) [OF assms(1)] packets_sane [OF assms(2)] by (auto simp: client_role_def)
qed

lemma packets_carried:
  assumes "env_laws E" and "trig_laws E"
  shows "List.map_filter (packet_carried E) (map (\<lambda>p. json_dump E (ToJson_packet E p)) (take k (packets E t nows em))) =
     take k (packets E t nows em)"
  using carried_built(1) [OF assms(1)] packets_sane [OF assms(2)]
  by (intro map_filter_inverse) (blast dest: in_set_takeD)

text \<open>The server to Node B and back: the lines read are the hello and then the modules of the first packets.\<close>

lemma lines_from_b:
  assumes "env_laws E" and "\<And>p. p \<in> set ps \<Longrightarrow> sane_packet p \<and> sendable_packet p"
    and "read_run chunks connected_client" and "prefix (concat chunks) (concat (map (packet_frame E) ps))"
    and "complete_reads [] replies"
    and "prefix (concat replies)
      (client_sent (client (snd (node_b_main E None Connected Written (map (\<lambda>chunk. (Received chunk, Written)) chunks)))))"
  shows "\<exists>j. lines_of [] replies = take (length replies) (json_dump E (MakeHelloMessage E k_role_B) #
     map (\<lambda>m. json_dump E (ToJson_module E m)) (map module_for (take j ps)))"
proof -
  let ?dump = "\<lambda>p. json_dump E (ToJson_packet E p)" and ?mdump = "\<lambda>m. json_dump E (ToJson_module E m)"
  have "prefix (concat chunks) (concat (map server_frame (map ?dump ps)))"
    using assms(4) by (simp add: frame_simps [abs_def] comp_def)
  from server_writer.drain_part [OF _ this] obtain m where "fst (drain (concat chunks)) = take m (map ?dump ps)"
    using built_lines_safe(1) [OF assms(1)] assms(2) by auto
  then obtain j where read: "take (length chunks) (fst (drain (concat chunks))) = map ?dump (take j ps)"
    by (simp add: take_map)
  have "List.map_filter (answer E) (map ?dump (take j ps)) = map module_for (take j ps)"
    using answer_built [OF env_lawsD [OF assms(1)]] assms(2)
    by (intro map_filter_built) (auto simp: module_for_def dest: in_set_takeD)
  then have "prefix (concat replies) (concat (map client_frame (json_dump E (MakeHelloMessage E k_role_B) #
      map ?mdump (map module_for (take j ps)))))"
    using assms(6) unfolding node_b_sent [OF assms(3)] read by (simp add: frame_simps [abs_def] comp_def)
  then have "lines_of [] replies = take (length replies) (json_dump E (MakeHelloMessage E k_role_B) #
      map ?mdump (map module_for (take j ps)))"
    using built_lines_safe(2,3) [OF assms(1)] module_for_sendable assms(2)
    by (intro client_writer.lines_of_part [OF _ assms(5)]) (auto simp: client_role_def dest: in_set_takeD)
  then show ?thesis by blast
qed

lemma modules_carried:
  assumes "env_laws E" and "\<And>p. p \<in> set ps \<Longrightarrow> sane_packet p \<and> sendable_packet p"
  shows "List.map_filter (module_carried E) (map (\<lambda>m. json_dump E (ToJson_module E m)) (map module_for (take k ps))) =
       map module_for (take k ps)"
    and "List.map_filter (logged E) (map (\<lambda>m. json_dump E (ToJson_module E m)) (map module_for (take k ps))) =
       map module_for (take k ps)"
proof -
  have m: "sendable_module m" if "m \<in> set (map module_for (take k ps))" for m
    using that assms(2) module_for_sendable by (auto dest: in_set_takeD)
  show "List.map_filter (module_carried E) (map (\<lambda>m. json_dump E (ToJson_module E m)) (map module_for (take k ps))) =
       map module_for (take k ps)"
    using carried_built(2) [OF assms(1)] m by (intro map_filter_inverse) blast
  show "List.map_filter (logged E) (map (\<lambda>m. json_dump E (ToJson_module E m)) (map module_for (take k ps))) =
       map module_for (take k ps)"
    using logged_built [OF env_lawsD [OF assms(1)]] m by (intro map_filter_inverse) blast
qed

text \<open>The server to Node A's log.\<close>

lemma log_from_server:
  assumes "env_laws E" and "\<And>p. p \<in> set ps \<Longrightarrow> sane_packet p \<and> sendable_packet p"
    and "node_a_run E t (started_node_a E) evs n" and "complete_reads [] (chunks_read evs)"
    and "prefix (concat (chunks_read evs)) (concat (map (module_frame E) (map module_for (take i ps))))"
  shows "\<exists>k. module_log n = map module_for (take k ps)"
proof -
  let ?mdump = "\<lambda>m. json_dump E (ToJson_module E m)"
  have "prefix (concat (chunks_read evs)) (concat (map server_frame (map ?mdump (map module_for (take i ps)))))"
    using assms(5) by (simp add: frame_simps [abs_def] comp_def)
  from server_writer.lines_of_part [OF _ assms(4) this]
  have "lines_of [] (chunks_read evs) = take (length (chunks_read evs)) (map ?mdump (map module_for (take i ps)))"
    using built_lines_safe(2) [OF assms(1)] module_for_sendable assms(2) by (auto dest: in_set_takeD)
  then obtain k where k: "lines_of [] (chunks_read evs) = map ?mdump (map module_for (take k ps))"
    by (simp add: take_map)
  have "module_log n = List.map_filter (logged E) (map ?mdump (map module_for (take k ps)))"
    using log_of_run [OF assms(3)] k by (simp add: started_node_a connected_client_def new_client_def)
  then show ?thesis using modules_carried(2) [OF assms(1,2), of ps k] by auto
qed

subsection \<open>One packet around the circle\<close>

lemma data_step:
  assumes "server_inv w" and "running w" and "live w a" and "\<not> session_closed (objects w a)" and "newline \<in> set chunk"
  shows "\<exists>v. server_step E w (ReadEvent a (ReadData chunk)) v \<and> running v \<and> live v = live w \<and>
     (\<forall>b. session_closed (objects v b) = session_closed (objects w b))"
proof -
  note x = extendsD(1,5,9) [OF extends_HandleLine [OF core_queues [OF core_line_taken [OF server_invD(1) [OF assms(1)], of a chunk]],
        of E a "next_line (objects w a) chunk"]]
  have "read_pending (objects w a)" using server_invD(3) [OF assms(1,3)] assms(4) by (simp add: session_quiet_def)
  then have "server_step E w (ReadEvent a (ReadData chunk)) (release a (on_read E a (ReadData chunk) w))"
    using assms by (intro server_step.read) (auto simp: read_enabled_def)
  then show ?thesis using x assms(2,4)
    by (intro exI [of _ "release a (on_read E a (ReadData chunk) w)"]) (auto simp: on_read_line release_def Let_def)
qed

lemma written_frame:
  "server_run E w (replicate n (WriteEvent b None)) w' \<Longrightarrow> c \<noteq> b \<Longrightarrow> server_inv w \<Longrightarrow> live w c \<Longrightarrow>
   wire w' c = wire w c \<and> live w' c \<and> objects w' c = objects w c \<and> running w' = running w"
proof (induction n arbitrary: w)
  case (Suc n)
  obtain v where s: "server_step E w (WriteEvent b None) v" and r: "server_run E v (replicate n (WriteEvent b None)) w'"
    using Suc.prems(1) by (auto simp: server_run_Cons)
  then show ?case using Suc.IH [OF r Suc.prems(2) server_step_inv [OF s Suc.prems(3)]] Suc.prems(2-4)
    by (auto simp: written_step_iff on_write_success live_release)
qed simp

lemma chunks_at_written [simp]: "chunks_at a (replicate n (WriteEvent b r)) = []"
  by (induction n) simp_all

lemma relay_only_nodes: "only_nodes 0 1 relay_state"
  by (auto simp: only_nodes_def GetNodeA_def GetNodeB_def relay_state_def new_session_def)

lemma relay_chunks:
  "chunks_at 0 (relay_events E) = [server_frame (json_dump E (MakeHelloMessage E k_role_A))]"
  "chunks_at 1 (relay_events E) = [server_frame (json_dump E (MakeHelloMessage E k_role_B))]"
  by (simp_all add: relay_events_def)

lemma frames_agree: "line_safe l \<Longrightarrow> server_frame l = client_frame l"
  using client_writer.frame_line [of l] by (simp add: server_frame_def line_safe_def)

lemma two_lines: "line_safe l \<Longrightarrow> line_safe m \<Longrightarrow> lines_of [] [server_frame l, server_frame m] = [l, m]"
  using getline_append [of l "[]"] getline_append [of m "[]"]
  by (auto simp: server_frame_def line_safe_def strip_cr_def)

lemma circle_run:
  assumes "env_laws E" and "sendable_packet p" and "sendable_module m"
  shows "\<exists>evs w. server_run E relay_state evs w \<and>
     \<not> session_closed (objects w 0) \<and> \<not> session_closed (objects w 1) \<and>
     chunks_at 0 evs = [packet_frame E p] \<and> chunks_at 1 evs = [module_frame E m] \<and>
     wire w 1 = packet_frame E p \<and> wire w 0 = module_frame E m"
proof -
  note inv = reachable_inv [OF reachable_relay [OF assms(1)]]
  note run0 = relay_run [OF assms(1), unfolded exec_events_iff]
  have nl: "newline \<in> set (packet_frame E p)" "newline \<in> set (module_frame E m)" by (simp_all add: frame_simps)
  obtain w1 where w1: "server_step E relay_state (ReadEvent 0 (ReadData (packet_frame E p))) w1" "running w1"
      "live w1 = live relay_state" "\<forall>b. \<not> session_closed (objects w1 b)"
    using data_step [OF inv, of 0 "packet_frame E p" E] nl by auto
  note inv1 = server_step_inv [OF w1(1) inv]
  obtain w2 where w2: "server_step E w1 (ReadEvent 1 (ReadData (module_frame E m))) w2" "running w2"
      "live w2 = live w1" "\<forall>b. \<not> session_closed (objects w2 b)"
    using data_step [OF inv1 w1(2), of 1 "module_frame E m" E] nl w1(3,4) by auto
  note inv2 = server_step_inv [OF w2(1) inv1]
  have live2: "live w2 0" "live w2 1" using w1(3) w2(3) by simp_all
  obtain n1 w3 where w3: "server_run E w2 (replicate n1 (WriteEvent 1 None)) w3" "write_queue (objects w3 1) = []"
      "\<not> session_closed (objects w3 1)" "live w3 1"
    using flush [OF inv2 w2(2) live2(2)] w2(4) by blast
  note f3 = written_frame [OF w3(1) _ inv2 live2(1)]
  note inv3 = server_run_inv [OF w3(1) inv2]
  obtain n0 w4 where w4: "server_run E w3 (replicate n0 (WriteEvent 0 None)) w4" "write_queue (objects w4 0) = []"
      "\<not> session_closed (objects w4 0)"
    using flush [OF inv3, of 0 E] f3 w2(2,4) by auto
  note f4 = written_frame [OF w4(1) _ inv3 w3(4)]
  define evs where "evs = [ReadEvent 0 (ReadData (packet_frame E p)), ReadEvent 1 (ReadData (module_frame E m))] @
     replicate n1 (WriteEvent 1 None) @ replicate n0 (WriteEvent 0 None)"
  have run: "server_run E relay_state evs w4"
    using w1(1) w2(1) w3(1) w4(1) by (auto simp: evs_def server_run_append server_run_Cons)
  have open4: "\<not> session_closed (objects w4 0)" "\<not> session_closed (objects w4 1)" "write_queue (objects w4 1) = []"
    using w4 f4 w3 by simp_all
  have chunks: "chunks_at 0 evs = [packet_frame E p]" "chunks_at 1 evs = [module_frame E m]" by (simp_all add: evs_def)
  have once: "length (chunks_at 0 (relay_events E)) = 1" "length (chunks_at 1 (relay_events E)) = 1"
    unfolding relay_chunks by simp_all
  note r = relayed [OF env_lawsD(2) [OF assms(1)] run0 relay_only_nodes once run open4(1,2)]
  have safe: "line_safe (json_dump E (ToJson_packet E p))" "line_safe (json_dump E (ToJson_module E m))"
      "line_safe (json_dump E (MakeHelloMessage E k_role_A))" "line_safe (json_dump E (MakeHelloMessage E k_role_B))"
    using built_lines_safe [OF assms(1)] assms(2,3) by (simp_all add: client_role_def)
  have lines: "tl (lines_of [] (chunks_at 0 (relay_events E @ evs))) = [json_dump E (ToJson_packet E p)]"
      "tl (lines_of [] (chunks_at 1 (relay_events E @ evs))) = [json_dump E (ToJson_module E m)]"
    unfolding chunks_at_append relay_chunks chunks frame_simps append_Cons append_Nil by (simp_all only: two_lines safe list.sel)
  show ?thesis
    using r(1,2) run open4 w4(2) chunks unfolding lines
    by (intro exI [of _ evs] exI [of _ w4]) (simp add: carried_built [OF assms(1)] assms(2,3) List.map_filter_simps)
qed


text \<open>Node A in the same circle: one packet out, one module in.\<close>

definition circle_node_a :: "'j env \<Rightarrow> int \<Rightarrow> AccelModule \<Rightarrow> NodeA" where
  "circle_node_a E now m =
     receiver_read E True (Received (module_frame E m))
       (send_round E 1000000 now Written (receiver_call (receiver_check (receiver_start True (started_node_a E)))))"

lemma circle_node_a:
  fixes E :: "'j env" and now :: int and m :: AccelModule
  defines "evs \<equiv> [ReceiverOpens True, ReceiverChecks, ReceiverCalls, MainSends now Written, ReceiverReads (Received (module_frame E m))]"
  shows "node_a_run E 1000000 (started_node_a E) evs (circle_node_a E now m)"
    and "client_sent (client_a (circle_node_a E now m)) = client_frame (json_dump E (MakeHelloMessage E k_role_A)) @
      packet_line E (fst (NextPacket E 1000000 now new_emulator))"
    and "env_laws E \<Longrightarrow> sendable_module m \<Longrightarrow> module_log (circle_node_a E now m) = [m]"
proof -
  define n1 n1' n2 n3 where "n1 = receiver_start True (started_node_a E)" and "n1' = receiver_check n1"
    and "n2 = receiver_call n1'" and "n3 = send_round E 1000000 now Written n2"
  obtain p em where np: "NextPacket E 1000000 now new_emulator = (p, em)" by fastforce
  have n2: "receiver_pc n1 = LoopTop" "receiver_pc n1' = CallsRead" "receiver_pc n2 = Reading True" "main_pc n2 = Sending" "client_open (client_a n2)"
      "emulator n2 = new_emulator" "client_a n2 = client_a (started_node_a E)" "module_log n2 = []"
    using started_node_a [of E]
    by (simp_all add: n1_def n1'_def n2_def receiver_start_def receiver_check_def receiver_call_def IsConnected_def)
  note s = send_round_written [OF n2(5), of E 1000000 now, unfolded n2(6), OF np, folded n3_def]
  have n3: "receiver_pc n3 = Reading True" "input_buf (client_a n3) = []" "module_log n3 = []"
    using s n2 started_node_a(10) [of E] by simp_all
  show run: "node_a_run E 1000000 (started_node_a E) evs (circle_node_a E now m)"
    using node_a_step.opens [OF started_node_a(3) [of E], of E 1000000 True] node_a_step.checks [OF n2(1), of E 1000000]
      node_a_step.calls [OF n2(2), of E 1000000] node_a_step.sends [OF n2(4), of E 1000000 now Written]
      node_a_step.reads [OF n3(1), of "Received (module_frame E m)" E 1000000]
    by (auto simp: node_a_run_Cons evs_def circle_node_a_def n1_def [symmetric] n1'_def [symmetric] n2_def [symmetric] n3_def [symmetric])
  obtain l rest where g: "getline (input_buf (client_a n3) @ module_frame E m) = (l, rest)" by fastforce
  note r = receiver_read_line [OF g, of E]
  have c: "circle_node_a E now m = receiver_read E True (Received (module_frame E m)) n3"
    by (simp add: circle_node_a_def n3_def n2_def n1'_def n1_def)
  show "client_sent (client_a (circle_node_a E now m)) = client_frame (json_dump E (MakeHelloMessage E k_role_A)) @
      packet_line E (fst (NextPacket E 1000000 now new_emulator))"
    unfolding c r(3) using s(1) n2(7) started_node_a(2) [of E] by (simp add: np connected_client_def new_client_def)
  assume m: "env_laws E" "sendable_module m"
  have safe: "line_safe (json_dump E (ToJson_module E m))" using built_lines_safe(2) m by blast
  then have "l = json_dump E (ToJson_module E m)"
    using g getline_append [of "json_dump E (ToJson_module E m)" "[]"]
    by (simp add: n3(2) frame_simps server_frame_def line_safe_def)
  then show "module_log (circle_node_a E now m) = [m]"
    unfolding c r(2) using logged_built [OF env_lawsD [OF m(1)] m(2)] n3(3) safe by (simp add: strip_cr_safe)
qed

subsection \<open>The norm of an emulated packet\<close>

lemma emulated_norm:
  assumes "\<bar>x\<bar> \<le> 4 / 10 + 1 / 100000" and "\<bar>y - 98 / 10\<bar> \<le> 2 / 10 + 1 / 100000" and "\<bar>z :: real\<bar> \<le> 1 / 10 + 1 / 100000"
  shows "959 / 100 \<le> sqrt (x * x + y * y + z * z)" and "sqrt (x * x + y * y + z * z) \<le> 1005 / 100"
proof -
  have y: "959 / 100 \<le> y" "y \<le> 10001 / 1000" using assms(2) by linarith+
  have "\<bar>x\<bar> * \<bar>x\<bar> \<le> (1 / 2) * (1 / 2)" "\<bar>z\<bar> * \<bar>z\<bar> \<le> (1 / 2) * (1 / 2)" using assms(1,3) by (intro mult_mono; simp)+
  then have xz: "x * x \<le> 1 / 4" "z * z \<le> 1 / 4" by simp_all
  have "y * y \<le> (10001 / 1000) * (10001 / 1000)" using y by (intro mult_mono) auto
  then have "x * x + y * y + z * z \<le> (1005 / 100) * (1005 / 100)" using xz by simp
  then show "sqrt (x * x + y * y + z * z) \<le> 1005 / 100" using real_le_lsqrt [of "1005 / 100" "x * x + y * y + z * z"] by (simp add: power2_eq_square)
  have "(959 / 100) * (959 / 100) \<le> y * y" using y by (intro mult_mono) auto
  then have "(959 / 100) * (959 / 100) \<le> x * x + y * y + z * z" by (meson add_increasing add_increasing2 zero_le_square)
  then show "959 / 100 \<le> sqrt (x * x + y * y + z * z)" by (intro real_le_rsqrt) (simp add: power2_eq_square)
qed

end
