(* ===== verification/Counters.thy ===== *)
theory Counters
  imports RelaySpec
begin

text \<open>
  The statistics a session keeps of its relaying: how many modules it has received, and how
  many packets and modules it has handed on to the other node.
\<close>

subsection \<open>What an event adds\<close>

definition module_read_by :: "'j env \<Rightarrow> addr \<Rightarrow> event \<Rightarrow> server \<Rightarrow> AccelModule option" where
  "module_read_by E a ev w =
     (case ev of
        ReadEvent b (ReadData chunk) \<Rightarrow>
          if b = a then module_in_line E (objects w a) (next_line (objects w a) chunk) else None
      | _ \<Rightarrow> None)"

definition forwarded_packet :: "'j env \<Rightarrow> server \<Rightarrow> session \<Rightarrow> AccelPacket option \<Rightarrow> nat" where
  "forwarded_packet E w s found =
     (case found of
        None \<Rightarrow> 0
      | Some p \<Rightarrow> if is_repeat E s p \<or> GetNodeB (live w) (registry w) = None then 0 else 1)"

definition forwarded_module :: "server \<Rightarrow> AccelModule option \<Rightarrow> nat" where
  "forwarded_module w found =
     (case found of None \<Rightarrow> 0 | Some m \<Rightarrow> if GetNodeA (live w) (registry w) = None then 0 else 1)"

definition statistics :: "session \<Rightarrow> u64 \<times> u64 \<times> u64" where
  "statistics s = (received_modules_count s, forwared_accel_packets_count s, forwared_modules_count s)"

definition add_statistics :: "nat \<times> nat \<times> nat \<Rightarrow> u64 \<times> u64 \<times> u64 \<Rightarrow> u64 \<times> u64 \<times> u64" where
  "add_statistics d c = (case (d, c) of ((i, j, k), (x, y, z)) \<Rightarrow> (x + of_nat i, y + of_nat j, z + of_nat k))"

lemma add_statistics_simps [simp]:
  "add_statistics (0, 0, 0) c = c" "add_statistics (i, j, k) (x, y, z) = (x + of_nat i, y + of_nat j, z + of_nat k)"
  by (simp_all add: add_statistics_def split: prod.splits)

lemma statistics_updates [simp]:
  "statistics (enqueue m s) = statistics s" "statistics (accept_packet p s) = statistics s"
  "statistics (drop_packet s) = statistics s"
  "statistics (s\<lparr>read_pending := r\<rparr>) = statistics s" "statistics (s\<lparr>write_pending := v\<rparr>) = statistics s"
  "statistics (s\<lparr>write_queue := q\<rparr>) = statistics s" "statistics (s\<lparr>session_closed := c\<rparr>) = statistics s"
  "statistics (s\<lparr>socket_open := c\<rparr>) = statistics s" "statistics (s\<lparr>buffer := bf\<rparr>) = statistics s"
  "statistics (s\<lparr>role := r'\<rparr>) = statistics s"
  by (simp_all add: statistics_def accept_packet_def drop_packet_def)

lemma statistics_counts [simp]:
  "statistics (s\<lparr>forwared_accel_packets_count := n\<rparr>) = (received_modules_count s, n, forwared_modules_count s)"
  "statistics (s\<lparr>forwared_modules_count := n\<rparr>) = (received_modules_count s, forwared_accel_packets_count s, n)"
  "statistics (s\<lparr>received_modules_count := n\<rparr>) = (n, forwared_accel_packets_count s, forwared_modules_count s)"
  by (simp_all add: statistics_def)

lemma statistics_Forward:
  assumes "core w" and "has_server_state (objects w a)"
  shows "statistics (objects (ForwardAccelPacketToNodeB E a p w) b) =
      add_statistics (if b = a \<and> GetNodeB (live w) (registry w) \<noteq> None then (0, 1, 0) else (0, 0, 0)) (statistics (objects w b))"
    and "statistics (objects (ForwardAccelModuleToNodeA E a m w) b) =
      add_statistics (if b = a \<and> GetNodeA (live w) (registry w) \<noteq> None then (0, 0, 1) else (0, 0, 0)) (statistics (objects w b))"
  using assms GetNodeB_core [OF assms(1)] GetNodeA_core [OF assms(1)]
  by (auto simp: ForwardAccelPacketToNodeB_def ForwardAccelModuleToNodeA_def SendJson_enqueue statistics_def
      split: option.splits)


definition delta :: "'j env \<Rightarrow> server \<Rightarrow> addr \<Rightarrow> string \<Rightarrow> nat \<times> nat \<times> nat" where
  "delta E w a line =
     (let m = module_in_line E (objects w a) line
      in (case m of None \<Rightarrow> 0 | Some _ \<Rightarrow> 1,
          forwarded_packet E w (objects w a) (packet_in_line E (objects w a) line), forwarded_module w m))"

lemma statistics_packet:
  assumes "core w" and "live w a" and "role (objects w a) = k_role_A" and "ParseAccelPacket E json = success p"
  shows "statistics (objects (HandleAccelPacket E a json w) b) =
     add_statistics (if b = a then (0, forwarded_packet E w (objects w a) (Some p), 0) else (0, 0, 0)) (statistics (objects w b))"
proof (cases "is_repeat E (objects w a) p")
  case True
  then show ?thesis by (simp add: HandleAccelPacket_objects [OF assms(3,4)] forwarded_packet_def)
next
  case False
  define v where "v = upd a (accept_packet p) w"
  have v: "core v" "live v = live w" "registry v = registry w" "has_server_state (objects v a)"
      "statistics (objects v b) = statistics (objects w b)"
    unfolding v_def using core_accept_packet [OF assms(1)] has_server_state_core [OF assms(1,2)]
    by (simp_all add: accept_packet_def [where s = "objects w a"])
      (simp_all add: statistics_def)
  have "objects (HandleAccelPacket E a json w) = objects (ForwardAccelPacketToNodeB E a p v)"
    using False by (simp add: HandleAccelPacket_objects [OF assms(3,4)] v_def)
  then show ?thesis using statistics_Forward(1) [OF v(1,4), of E p b] False
    by (simp add: v(2,3,5) forwarded_packet_def)
qed

lemma statistics_module:
  assumes "core w" and "live w a" and "role (objects w a) = k_role_B" and "ParseAccelModule E json = success m"
  shows "statistics (objects (HandleModulePacket E a json w) b) =
     add_statistics (if b = a then (1, 0, forwarded_module w (Some m)) else (0, 0, 0)) (statistics (objects w b))"
proof -
  define v where "v = upd a (\<lambda>s. s\<lparr>received_modules_count := received_modules_count s + 1\<rparr>) w"
  have v: "core v" "live v = live w" "registry v = registry w" "has_server_state (objects v a)"
      "statistics (objects v b) = add_statistics (if b = a then (1, 0, 0) else (0, 0, 0)) (statistics (objects w b))"
    unfolding v_def using core_counters(3) [OF assms(1), of a] has_server_state_core [OF assms(1,2)]
    by (simp_all add: statistics_def)
  have "objects (HandleModulePacket E a json w) = objects (ForwardAccelModuleToNodeA E a m v)"
    by (simp add: HandleModulePacket_objects [OF assms(3,4)] v_def)
  then show ?thesis using statistics_Forward(2) [OF v(1,4), of E m b]
    by (cases "statistics (objects w b)"; cases "GetNodeA (live w) (registry w)")
      (simp_all add: v(2,3,5) forwarded_module_def)
qed

lemma statistics_RegisterRole [simp]: "statistics (objects (RegisterRole a r w) b) = statistics (objects w b)"
  by (auto simp: RegisterRole_def split: prod.splits)

lemma statistics_HandleLine:
  assumes "core w" and "live w a"
  shows "statistics (objects (HandleLine E a line w) b) =
     add_statistics (if b = a then delta E w a line else (0, 0, 0)) (statistics (objects w b))"
proof (cases "packet_in_line E (objects w a) line")
  case (Some p)
  then obtain json where "line \<noteq> []" "ParseJsonLine E line = success json" "GetMessageType E json = success k_type_accel"
      and p: "role (objects w a) = k_role_A" "ParseAccelPacket E json = success p"
    by (auto simp: packet_in_line_def simp del: GetMessageType_iff split: Result.splits if_splits)
  then have "HandleLine E a line w = HandleAccelPacket E a json w"
    by (simp add: HandleLine_def protocol_constants del: GetMessageType_iff)
  then show ?thesis using statistics_packet [OF assms p, of b] in_line_exclusive [OF Some]
    by (simp add: delta_def Some forwarded_module_def)
next
  case None
  note no_packet = None
  show ?thesis
  proof (cases "module_in_line E (objects w a) line")
    case (Some m)
    then obtain json where "line \<noteq> []" "ParseJsonLine E line = success json" "GetMessageType E json = success k_type_module"
        and m: "role (objects w a) = k_role_B" "ParseAccelModule E json = success m"
      by (auto simp: module_in_line_def simp del: GetMessageType_iff split: Result.splits if_splits)
    then have "HandleLine E a line w = HandleModulePacket E a json w"
      by (simp add: HandleLine_def protocol_constants del: GetMessageType_iff)
    then show ?thesis using statistics_module [OF assms m, of b] no_packet
      by (simp add: delta_def Some forwarded_packet_def)
  next
    case None
    have "objects (HandleAccelPacket E a json w) = objects w"
      if "line \<noteq> []" "ParseJsonLine E line = success json" "GetMessageType E json = success k_type_accel" for json
      using no_packet that HandleAccelPacket_rejected [of w a E json]
      by (auto simp: packet_in_line_def simp del: GetMessageType_iff split: Result.splits if_splits)
    moreover have "objects (HandleModulePacket E a json w) = objects w"
      if "line \<noteq> []" "ParseJsonLine E line = success json" "GetMessageType E json = success k_type_module" for json
      using None that HandleModulePacket_rejected [of w a E json]
      by (auto simp: module_in_line_def simp del: GetMessageType_iff split: Result.splits if_splits)
    ultimately show ?thesis using None no_packet
      by (auto simp: HandleLine_def delta_def forwarded_packet_def forwarded_module_def simp del: GetMessageType_iff
          split: Result.splits)
  qed
qed

subsection \<open>Steps and runs\<close>

definition added :: "'j env \<Rightarrow> addr \<Rightarrow> event \<Rightarrow> server \<Rightarrow> nat \<times> nat \<times> nat" where
  "added E b ev w =
     (case ev of
        ReadEvent a (ReadData chunk) \<Rightarrow> if b = a then delta E w a (next_line (objects w a) chunk) else (0, 0, 0)
      | _ \<Rightarrow> (0, 0, 0))"

lemma delta_taken: "delta E (line_taken a chunk w) a l = delta E w a l"
  by (auto simp: delta_def forwarded_packet_def forwarded_module_def split: option.splits)

lemma statistics_taken [simp]: "statistics (objects (line_taken a chunk w) b) = statistics (objects w b)"
  by (simp add: line_taken_def statistics_def)

lemma statistics_on_read:
  assumes "core w" and "live w a"
  shows "statistics (objects (on_read E a (ReadData chunk) w) b) =
     add_statistics (if b = a then delta E w a (next_line (objects w a) chunk) else (0, 0, 0)) (statistics (objects w b))"
  using statistics_HandleLine [OF core_line_taken [OF assms(1), of a chunk], of a E "next_line (objects w a) chunk" b] assms(2)
  by (cases "b = a") (simp_all add: on_read_line delta_taken Let_def)

definition fresh_statistics :: "server \<Rightarrow> bool" where
  "fresh_statistics w \<longleftrightarrow> (\<forall>b. next_addr w \<le> b \<longrightarrow> statistics (objects w b) = (0, 0, 0))"

lemma statistics_step:
  assumes "server_step E w ev v" and "server_inv w" and "fresh_statistics w"
  shows "statistics (objects v b) = add_statistics (added E b ev w) (statistics (objects w b)) \<and> fresh_statistics v"
  using assms(1)
proof cases
  case (accept r)
  have new: "statistics new_session = (0, 0, 0)" by (simp add: statistics_def new_session_def)
  show ?thesis using accept assms(3) new
    by (auto simp: added_def fresh_statistics_def on_accept_def create_session_def AcceptNext_def Start_session_def
        ReadNextLine_def Let_def split: accept_completion.splits option.splits)
next
  case (read a r)
  have a: "a < next_addr w" using live_below [OF assms(2) read(4)] .
  show ?thesis
  proof (cases r)
    case (ReadFail e)
    then show ?thesis using read assms(3)
      by (auto simp: added_def fresh_statistics_def on_read_def objects_Close Let_def)
  next
    case (ReadData chunk)
    note s = statistics_on_read [OF server_invD(1) [OF assms(2)] read(4), of E chunk]
    have "next_addr v = next_addr w" using on_read_frame(2) [OF assms(2)] read by simp
    then show ?thesis using s a assms(3) by (auto simp: read ReadData added_def fresh_statistics_def)
  qed
next
  case (written a m)
  then show ?thesis using assms(3) by (auto simp: added_def fresh_statistics_def on_write_success)
next
  case (write_failed a m error n)
  then show ?thesis using assms(3) by (auto simp: added_def fresh_statistics_def on_write_def objects_Close Let_def)
qed


text \<open>The totals over a run.\<close>

fun total :: "'j env \<Rightarrow> addr \<Rightarrow> event list \<Rightarrow> server \<Rightarrow> nat \<times> nat \<times> nat" where
  "total E a [] w = (0, 0, 0)"
| "total E a (ev # evs) w =
     (case (added E a ev w, case exec_event E ev w of None \<Rightarrow> (0, 0, 0) | Some v \<Rightarrow> total E a evs v) of
        ((i, j, k), (i', j', k')) \<Rightarrow> (i + i', j + j', k + k'))"

lemma statistics_run:
  "server_run E w evs w' \<Longrightarrow> server_inv w \<Longrightarrow> fresh_statistics w \<Longrightarrow>
   statistics (objects w' a) = add_statistics (total E a evs w) (statistics (objects w a))"
proof (induction rule: server_run.induct)
  case (run_cons w ev v evs w')
  note s = statistics_step [OF run_cons.hyps(1) run_cons.prems, of a]
  have "exec_event E ev w = Some v" using run_cons.hyps(1) by (simp add: exec_event_iff)
  then show ?case
    using run_cons.IH [OF server_step_inv [OF run_cons.hyps(1) run_cons.prems(1)]] s
    by (cases "statistics (objects w a)"; cases "added E a ev w"; cases "total E a evs v")
      (simp add: add.assoc del: exec_event.simps)
qed simp

lemma started_statistics: "fresh_statistics started" "statistics (objects started a) = (0, 0, 0)"
  by (simp_all add: fresh_statistics_def statistics_def started_def AcceptNext_def initial_server_def new_session_def)

text \<open>
  C27. A session's statistics are true. Over any run, modulo \<open>2^64\<close>, it has counted the valid
  modules it read as Node B, the packets it accepted while a Node B was registered, and the
  modules it read while a Node A was registered; no other event changes the three counters.
\<close>

theorem statistics_exact:
  assumes "server_run E started evs w"
  shows "case total E a evs started of
     (modules, packets_on, modules_on) \<Rightarrow>
       received_modules_count (objects w a) = of_nat modules \<and>
       forwared_accel_packets_count (objects w a) = of_nat packets_on \<and>
       forwared_modules_count (objects w a) = of_nat modules_on"
  using statistics_run [OF assms started_inv started_statistics(1), of a]
  by (cases "total E a evs started") (simp add: started_statistics(2), simp add: statistics_def)

lemma total_append:
  "server_run E w evs v \<Longrightarrow>
   total E a (evs @ evs') w =
     (case (total E a evs w, total E a evs' v) of ((i, j, k), (i', j', k')) \<Rightarrow> (i + i', j + j', k + k'))"
  by (induction rule: server_run.induct)
    (simp_all add: exec_event_iff [symmetric] split: prod.splits del: exec_event.simps)

theorem statistics_exact_witness:
  "forwared_accel_packets_count (objects (after_packet jenv 0 (sample_packet 7 5000)) 0) = 1"
proof -
  obtain i j k where t: "total jenv 0 (relay_events jenv) started = (i, j, k)" by (metis prod_cases3)
  have run: "server_run jenv started (relay_events jenv) relay_state"
    using relay_run [OF jenv_laws, unfolded exec_events_iff] .
  have "statistics (objects relay_state 0) = (0, 0, 0)"
    by (simp add: statistics_def relay_state_def new_session_def)
  then have zero: "(of_nat j :: u64) = 0"
    using statistics_run [OF run started_inv started_statistics(1), of 0] t by (simp add: started_statistics(2))
  have "forwarded_packet jenv relay_state (objects relay_state 0) (Some (sample_packet 7 5000)) = 1"
    by (simp add: forwarded_packet_def GetNodeB_def)
  then have "added jenv 0 (ReadEvent 0 (ReadData (packet_chunk jenv (sample_packet 7 5000)))) relay_state = (0, 1, 0)"
    by (simp add: added_def delta_def relay_next_line [OF jenv_laws sample_sendable(1)] forwarded_module_def)
  then have "total jenv 0 [ReadEvent 0 (ReadData (packet_chunk jenv (sample_packet 7 5000)))] relay_state = (0, 1, 0)"
    by (simp split: option.split)
  then have "total jenv 0 (relay_events jenv @ [ReadEvent 0 (ReadData (packet_chunk jenv (sample_packet 7 5000)))]) started =
      (i, j + 1, k)"
    by (simp add: total_append [OF run] t)
  then show ?thesis
    using statistics_exact [OF after_packet_run [OF jenv_laws disjI1 [OF refl]], of "sample_packet 7 5000" 0] zero by simp
qed

end
