(* ===== verification/Spec2Isabelle.thy ===== *)
theory Spec2Isabelle
  imports Circle Counters
begin

text \<open>
  A verification of the accelerometer relay: three programs that talk JSON lines over TCP.
  Node A samples an accelerometer emulator at 50 Hz and sends packets (timestamp, x, y, z);
  the server drops packets that repeat the last one, and relays the others to Node B; Node B
  answers each packet with its Euclidean norm, a module (timestamp, module); the server
  relays the modules to Node A, which appends them to a log. Paths below are under
  \<open>src/\<close> and \<open>include/\<close> of the sources.

  Theories and the code they model.

  \<open>Prelude\<close>: type names (\<open>uint64_t\<close>, \<open>int64_t\<close> as 64-bit words, \<open>int\<close> as a 32-bit word), the
  characters of the framing, exit codes, facts on powers of two. \<open>Binary64\<close>: the arithmetic of
  \<open>double\<close>: IEEE 754 values with a sign, a significand and an exponent, and addition,
  multiplication, division and square root rounded to nearest, ties to even, each operation
  on its own (no contraction to fused operations); \<open>std::llround\<close>, whose value out of the
  range of \<open>int64_t\<close> is unspecified and a parameter. The first group of lemmas there bounds the
  error of one rounding.

  \<open>Environment\<close>: the record \<open>env\<close> of what the sources call and do not contain: the operations of
  \<open>nlohmann::json\<close>, \<open>std::sin\<close>, \<open>std::cos\<close> and \<open>std::llround\<close> out of range. What is relied on of
  them are named laws: \<open>number_laws\<close> (an unsigned number is an integer, integers and doubles
  are numbers, \<open>get\<close> of an integer type keeps the low bits), \<open>object_laws\<close>, \<open>scalar_laws\<close> and \<open>builder_laws\<close> (building an object
  and looking its fields up), \<open>text_laws\<close> (the text of a flat object of printable strings,
  integers and finite doubles is one line and parses back). \<open>JsonInstance\<close> shows that they can
  hold together: a concrete JSON type with its own text format satisfies all of them, and the
  witnesses of the properties are evaluated on it.

  \<open>AccelPacket\<close>: \<open>common/accel_packet.hpp\<close>, \<open>common/accel_module.hpp\<close>; the two records and the
  duplicate test, and how far apart two packets taken for duplicates can be.
  \<open>JsonProtocol\<close>: \<open>common/json_protocol.cpp\<close>; every builder, field reader, validator and parser
  with its error texts. The locale \<open>field_reader\<close> is the contract of the three field readers,
  \<open>message_codec\<close> that of the three message kinds (packet, module, hello); both are
  interpreted on all of them. \<open>Framing\<close>: one line per message: \<open>std::getline\<close> on a stream
  buffer, the trailing carriage return, and that the lines read do not depend on how the
  stream is cut (\<open>drain\<close>, \<open>feed\<close>, \<open>lines_of\<close>); the locale \<open>line_writer\<close> is the contract of both
  writers. \<open>TcpClient\<close>: \<open>common/tcp_client.cpp\<close>; the client as an open flag, the bytes sent and
  the input buffer. The results of the blocking calls (success with the bytes received, or an
  error and what was transferred before it) are arguments.

  \<open>ServerState\<close>: \<open>server/server_state.cpp\<close>; the registry. Weak pointers are addresses together
  with a predicate of the objects that exist. The locale \<open>role_slot\<close> is the contract of one
  role, interpreted for both. \<open>ClientSession\<close>: \<open>server/client_session.cpp\<close>; every method as a
  function of the whole server's state, since sessions reach each other through the registry;
  \<open>on_read\<close> and \<open>on_write\<close> are the completion handlers. \<open>TcpServer\<close>: \<open>server/tcp_server.cpp\<close> and
  \<open>server/main.cpp\<close>; start-up, the accept handler, and the event loop as the relation
  \<open>server_step\<close>: any pending operation may complete next, in any way Boost.Asio documents. It has
  an executable version (\<open>exec_event\<close>) and the invariant \<open>server_inv\<close> of all reachable states.

  \<open>Routing\<close>: what one line makes the server do. \<open>Streams\<close>: the bytes sent to one session over a
  run. \<open>DuplicateFilter\<close>: what one session receives, accepts and drops over a run.
  \<open>Lifecycle\<close>: who is registered, that a closed session gets no new operation and is destroyed
  with its last one, that the loop always waits for something and when \<open>io.run()\<close> is over. \<open>Relay\<close>: what the two registered nodes are sent; the locale \<open>traffic\<close> proves it once
  and is interpreted for both directions. \<open>RelaySpec\<close>: an abstract relay of peers and messages,
  with no buffers, queues, pointers or pending operations, and the simulation that the
  server's state and steps refine it. \<open>Counters\<close>: the statistics a session keeps.

  \<open>ModuleNorm\<close> and \<open>NodeB\<close>: \<open>node_b/main.cpp\<close>; the norm with its error bound and its overflow, and
  the loop as a function of the results of its reads and writes. \<open>Emulator\<close>:
  \<open>node_a/accelerometer_emulator.cpp\<close>; given that \<open>sin\<close> and \<open>cos\<close> are between -1 and 1
  (\<open>trig_laws\<close>). \<open>NodeA\<close>: \<open>node_a/main.cpp\<close>; the two threads as one relation \<open>node_a_step\<close> whose
  steps are the blocking calls with the code up to the next one, interleaved in any order;
  the receiver's test of the flag, the test of the connection at the start of \<open>ReadLine\<close> and
  the read itself are three steps, so that \<open>main\<close> can close the connection between any two.
  \<open>Delivery\<close> and \<open>Circle\<close>: the way of a message from one program to the next. This theory holds
  the properties that span all of them.

  Loops. The endless loops of the nodes and of \<open>io.run()\<close> are driven by the list of results
  the network gives (or by the derivation of a run), so there is no fuel to choose: a
  definition consumes one result per round, and the end of the list means that the program is
  still running. \<open>drain\<close> and the digits of numbers terminate by a measure.

  Not modelled, and why. The text of console output: each message is a value that names it
  and carries its data. Name resolution, the TCP stack and the latency of the network: their
  results are arguments, and the end-to-end property assumes only that each side has received
  a prefix of what the other has sent. The pacing of Node A's loop (\<open>sleep_until\<close>). The
  creation of the log's directory and the formatting of a logged module: the log is the list
  of modules written. The mutex of the registry: all its callers run on the one thread of the
  event loop, so each operation is a step. Memory reuse: a session's address is never given
  to a later session. Simultaneous access of Node A's threads to the socket object, which
  Boost.Asio does not promise to be safe, is an interleaving of whole calls here. The scripts
  that capture traffic and the build files hold no logic of the programs.
\<close>

section \<open>Properties across the programs\<close>

text \<open>
  C1. End to end. Assume that Node A and Node B have connected and said hello; that when both
  are registered (state w0) the server has completed one read from each of them, its hello,
  and no other session has, or has ever had, a role; that at the end both sessions are still
  open; that Node B's reads and writes have succeeded so far; and that each program has
  received a prefix of the bytes sent to it, cut into any chunks, each successful read leaving
  a whole line in the buffer. Then, however the server's
  events and Node A's threads interleave, and while other clients come, go and are refused,
  Node A's log is a prefix of: the packets it sampled and the server has read, with
  repetitions removed, each replaced by its timestamp and Euclidean norm. Nothing in the log
  is invented, reordered, duplicated or skipped. The JSON library satisfies its laws, and sin
  and cos are between -1 and 1.
\<close>

theorem end_to_end:
  fixes E :: "'j env" and nA :: NodeA
  assumes laws: "env_laws E" "trig_laws E"
    and nodeA: "node_a_run E t (started_node_a E) evsA nA" "complete_reads [] (chunks_read evsA)"
    and nodeB: "read_run chunksB connected_client"
    and server: "server_run E started evs0 w0" "only_nodes a b w0"
      "length (chunks_at a evs0) = 1" "length (chunks_at b evs0) = 1"
      "server_run E w0 evs w" "\<not> session_closed (objects w a)" "\<not> session_closed (objects w b)"
    and network:
      "prefix (concat (chunks_at a (evs0 @ evs))) (client_sent (client_a nA))"
      "prefix (concat chunksB) (wire w b)"
      "prefix (concat (chunks_at b (evs0 @ evs)))
         (client_sent (client (snd (node_b_main E None Connected Written (map (\<lambda>chunk. (Received chunk, Written)) chunksB)))))"
      "prefix (concat (chunks_read evsA)) (wire w a)"
  defines "sampled \<equiv> take (length (chunks_at a evs)) (packets E t (clocks_read evsA) new_emulator)"
  shows "prefix (module_log nA)
     (map module_for (drop_repeats (IsDuplicate (llround_unspecified E)) None sampled))"
proof -
  define acc where "acc = drop_repeats (IsDuplicate (llround_unspecified E)) None sampled"
  note relay = relayed [OF env_lawsD(2) [OF laws(1)] server]
  have acc: "sane_packet p \<and> sendable_packet p" if "p \<in> set acc" for p
    using set_drop_repeats [of _ None sampled] that packets_sane [OF laws(2)]
    unfolding acc_def sampled_def by (meson in_set_takeD subsetD)
  have "tl (lines_of [] (chunks_at a (evs0 @ evs))) = map (\<lambda>p. json_dump E (ToJson_packet E p)) sampled"
    unfolding lines_from_a [OF laws nodeA(1) relay(3) network(1)] by (simp add: server(3) sampled_def take_map)
  then have got: "List.map_filter (packet_carried E) (tl (lines_of [] (chunks_at a (evs0 @ evs)))) = sampled"
    using packets_carried [OF laws] by (simp add: sampled_def)
  have "prefix (concat chunksB) (concat (map (packet_frame E) acc))"
    using relay(1) network(2) unfolding got acc_def [symmetric] by (metis prefix_order.trans prefixI)
  from lines_from_b [OF laws(1) acc nodeB this relay(3) network(3)]
  obtain i where "tl (lines_of [] (chunks_at b (evs0 @ evs))) =
      map (\<lambda>m. json_dump E (ToJson_module E m)) (map module_for (take i acc))"
    by (auto simp: server(4) take_map)
  then have "List.map_filter (module_carried E) (tl (lines_of [] (chunks_at b (evs0 @ evs)))) = map module_for (take i acc)"
    using modules_carried(1) [OF laws(1) acc] by simp
  then have "prefix (concat (chunks_read evsA)) (concat (map (module_frame E) (map module_for (take i acc))))"
    using relay(2) network(4) by (metis prefix_order.trans prefixI)
  from log_from_server [OF laws(1) acc nodeA this] show ?thesis
    unfolding acc_def [symmetric] by (metis take_is_prefix take_map)
qed

theorem end_to_end_witness:
  "prefix (module_log (circle_node_a jenv 7000000 (module_for (fst (NextPacket jenv 1000000 7000000 new_emulator)))))
     [module_for (fst (NextPacket jenv 1000000 7000000 new_emulator))] \<and>
   module_log (circle_node_a jenv 7000000 (module_for (fst (NextPacket jenv 1000000 7000000 new_emulator)))) \<noteq> []"
proof -
  obtain p em where np: "NextPacket jenv 1000000 7000000 new_emulator = (p, em)" by fastforce
  define m where "m = module_for p"
  have ok: "sane_packet p" "sendable_packet p"
    using NextPacket_sane [OF jenv_trig_laws np] NextPacket_bounds(1) [OF jenv_trig_laws np] by simp_all
  then have m: "sendable_module m" unfolding m_def by (rule module_for_sendable)
  obtain evs w where w: "server_run jenv relay_state evs w" "\<not> session_closed (objects w 0)" "\<not> session_closed (objects w 1)"
      "chunks_at 0 evs = [packet_frame jenv p]" "chunks_at 1 evs = [module_frame jenv m]"
      "wire w 1 = packet_frame jenv p" "wire w 0 = module_frame jenv m"
    using circle_run [OF jenv_laws ok(2) m] by blast
  define nA where "nA = circle_node_a jenv 7000000 m"
  note A = circle_node_a [where E = jenv and now = 7000000 and m = m, folded nA_def]
  have hello: "line_safe (json_dump jenv (MakeHelloMessage jenv k_role_A))" "line_safe (json_dump jenv (MakeHelloMessage jenv k_role_B))"
    and safe: "line_safe (json_dump jenv (ToJson_packet jenv p))" "line_safe (json_dump jenv (ToJson_module jenv m))"
    using built_lines_safe [OF jenv_laws] ok(2) m by (simp_all add: client_role_def)
  have nl: "newline \<in> set (module_frame jenv m)" and run: "read_run [packet_frame jenv p] connected_client"
    by (simp_all add: frame_simps read_possible_def connected_client_def new_client_def split: prod.split)
  have "drain (packet_frame jenv p) = ([json_dump jenv (ToJson_packet jenv p)], [])"
    using server_writer.drain_frames [of "[json_dump jenv (ToJson_packet jenv p)]"] safe(1) by (simp add: frame_simps)
  then have B: "client_sent (client (snd (node_b_main jenv None Connected Written
        (map (\<lambda>chunk. (Received chunk, Written)) [packet_frame jenv p])))) =
      client_frame (json_dump jenv (MakeHelloMessage jenv k_role_B)) @ module_line jenv m"
    using node_b_sent [OF run, of jenv] answer_built [OF env_lawsD [OF jenv_laws] ok(2)]
    by (simp add: List.map_filter_simps m_def module_for_def)
  have once: "length (chunks_at 0 (relay_events jenv)) = 1" "length (chunks_at 1 (relay_events jenv)) = 1"
    unfolding relay_chunks by simp_all
  have net: "prefix (concat (chunks_at 0 (relay_events jenv @ evs))) (client_sent (client_a nA))"
    unfolding chunks_at_append relay_chunks w(4) A(2) np fst_conv
    unfolding frame_simps frames_agree [OF hello(1)] frames_agree [OF safe(1)] by simp
  have net': "prefix (concat (chunks_at 1 (relay_events jenv @ evs))) (client_sent (client (snd (node_b_main jenv None
      Connected Written (map (\<lambda>chunk. (Received chunk, Written)) [packet_frame jenv p])))))"
    unfolding chunks_at_append relay_chunks w(5) B
    unfolding frame_simps frames_agree [OF hello(2)] frames_agree [OF safe(2)] by simp
  have "prefix (module_log nA) (map module_for (drop_repeats (IsDuplicate (llround_unspecified jenv)) None
      (take (length (chunks_at 0 evs)) (packets jenv 1000000 (clocks_read [ReceiverOpens True, ReceiverChecks,
        ReceiverCalls, MainSends 7000000 Written, ReceiverReads (Received (module_frame jenv m))]) new_emulator))))"
    by (rule end_to_end [OF jenv_laws jenv_trig_laws A(1) _ run relay_run [OF jenv_laws, unfolded exec_events_iff]
          relay_only_nodes once w(1-3) net _ net']) (simp_all add: w nl del: One_nat_def)
  then show ?thesis
    using A(3) [OF jenv_laws m] by (simp add: np w(4) nA_def m_def)
qed

text \<open>
  C26. What a run measures. For every packet the emulator makes, at any time and sample index,
  Node B's module is a finite number between 9.5 and 10.1: the gravity of 9.8 with the
  emulated vibration, all roundings included.
\<close>

theorem emulated_module:
  assumes "trig_laws E" and "NextPacket E ticks_per_ms now em = (p, em')"
  shows "is_finite64 (module_of p) \<and> 95 / 10 \<le> real64 (module_of p) \<and> real64 (module_of p) \<le> 101 / 10"
proof -
  define r where "r = sqrt (sum_of_squares p)"
  note b = NextPacket_bounds [OF assms]
  have r: "959 / 100 \<le> r" "r \<le> 1005 / 100"
    using emulated_norm [OF b(2-4)] by (simp_all add: r_def sum_of_squares_def)
  note e = module_of_error [OF NextPacket_sane [OF assms] b(1), folded r_def]
  have "r * 2 powi (-50) \<le> 1005 / 100 * (1 / 1024)"
    using r powi_2_mono [of "-50" "-10"] by (intro mult_mono) simp_all
  moreover have "(2::real) powi (-534) \<le> 1 / 1024" using powi_2_mono [of "-534" "-10"] by simp
  ultimately have "\<bar>real64 (module_of p) - r\<bar> \<le> 2 / 100" using e(2) by linarith
  then have "95 / 10 \<le> real64 (module_of p)" "real64 (module_of p) \<le> 101 / 10" using r by linarith+
  then show ?thesis using e(1) by blast
qed

theorem emulated_module_witness:
  "95 / 10 \<le> real64 (module_of (fst (NextPacket jenv 1000000 7000000 new_emulator)))"
  using emulated_module [OF jenv_trig_laws, of 1000000 7000000 new_emulator
      "fst (NextPacket jenv 1000000 7000000 new_emulator)" "snd (NextPacket jenv 1000000 7000000 new_emulator)"]
  by simp

end
